theory Spec2Isabelle
  imports Main "HOL-Library.Word"
begin

unbundle bit_operations_syntax

section \<open>Common types\<close>

text \<open>
  The drivers report their status as an \<open>int\<close>: 0 on success, an \<open>errno\<close> value
  otherwise. The values of the macros of the header cerrno are those of newlib.
\<close>

definition EBADF :: int where "EBADF = 9"
definition EBUSY :: int where "EBUSY = 16"
definition EINVAL :: int where "EINVAL = 22"
definition ENOTSUP :: int where "ENOTSUP = 134"

text \<open>
  A call either returns or stops the program: \<open>assert\<close> fails, or an unsigned division
  by zero is executed (undefined behaviour in C++).
\<close>

datatype fault = AssertionFailure | DivisionByZero

datatype 'a outcome = Returns 'a | Fault fault

text \<open>\<open>devices::SpiMode\<close>.\<close>

datatype SpiMode = cpol0cpha0 | cpol0cpha1 | cpol1cpha0 | cpol1cpha1

text \<open>
  An observer (\<open>devices::SpiMasterBase&\<close>) is known by its identity. A stored observer
  pointer is \<open>None\<close> when it is \<open>nullptr\<close>. Buffers are addresses of bytes, with
  \<open>nullptr\<close> the address 0; \<open>size_t\<close> and \<open>uintptr_t\<close> have 32 bits on the target.
\<close>

type_synonym observer = nat
type_synonym addr = "32 word"
type_synonym size_t = "32 word"

definition nullptr :: addr where "nullptr = 0"

section \<open>SPI peripheral registers (SPIv2)\<close>

definition SPI_CR1_CPHA :: "32 word" where "SPI_CR1_CPHA = 0x0001"
definition SPI_CR1_CPOL :: "32 word" where "SPI_CR1_CPOL = 0x0002"
definition SPI_CR1_MSTR :: "32 word" where "SPI_CR1_MSTR = 0x0004"
definition SPI_CR1_BR :: "32 word" where "SPI_CR1_BR = 0x0038"
definition SPI_CR1_SPE :: "32 word" where "SPI_CR1_SPE = 0x0040"
definition SPI_CR1_LSBFIRST :: "32 word" where "SPI_CR1_LSBFIRST = 0x0080"
definition SPI_CR1_SSI :: "32 word" where "SPI_CR1_SSI = 0x0100"
definition SPI_CR1_SSM :: "32 word" where "SPI_CR1_SSM = 0x0200"

definition SPI_CR1_CPHA_Pos :: nat where "SPI_CR1_CPHA_Pos = 0"
definition SPI_CR1_CPOL_Pos :: nat where "SPI_CR1_CPOL_Pos = 1"
definition SPI_CR1_BR_Pos :: nat where "SPI_CR1_BR_Pos = 3"
definition SPI_CR1_LSBFIRST_Pos :: nat where "SPI_CR1_LSBFIRST_Pos = 7"

definition SPI_CR2_RXDMAEN :: "32 word" where "SPI_CR2_RXDMAEN = 0x0001"
definition SPI_CR2_TXDMAEN :: "32 word" where "SPI_CR2_TXDMAEN = 0x0002"
definition SPI_CR2_ERRIE :: "32 word" where "SPI_CR2_ERRIE = 0x0020"
definition SPI_CR2_RXNEIE :: "32 word" where "SPI_CR2_RXNEIE = 0x0040"
definition SPI_CR2_TXEIE :: "32 word" where "SPI_CR2_TXEIE = 0x0080"
definition SPI_CR2_DS :: "32 word" where "SPI_CR2_DS = 0x0F00"
definition SPI_CR2_FRXTH :: "32 word" where "SPI_CR2_FRXTH = 0x1000"

definition SPI_CR2_DS_Pos :: nat where "SPI_CR2_DS_Pos = 8"
definition SPI_CR2_FRXTH_Pos :: nat where "SPI_CR2_FRXTH_Pos = 12"

definition SPI_SR_RXNE :: "32 word" where "SPI_SR_RXNE = 0x0001"
definition SPI_SR_TXE :: "32 word" where "SPI_SR_TXE = 0x0002"
definition SPI_SR_OVR :: "32 word" where "SPI_SR_OVR = 0x0040"
definition SPI_SR_BSY :: "32 word" where "SPI_SR_BSY = 0x0080"

text \<open>\<open>bool\<close> promoted to an integer, as in \<open>lsbFirst << SPI_CR1_LSBFIRST_Pos\<close>.\<close>

definition of_bool32 :: "bool \<Rightarrow> 32 word" where
  "of_bool32 b = (if b then 1 else 0)"

text \<open>
  \<open>__builtin_clz\<close>: the number of leading zero bits of a 32-bit value, counted from
  bit 31 downwards (the result for 0 is not defined by the compiler; it is never
  asked for here).
\<close>

fun clz_below :: "nat \<Rightarrow> 32 word \<Rightarrow> nat" where
  "clz_below 0 x = 0"
| "clz_below (Suc n) x = (if bit x n then 0 else Suc (clz_below n x))"

definition builtin_clz :: "32 word \<Rightarrow> nat" where
  "builtin_clz x = clz_below 32 x"

section \<open>ChipSpiMasterLowLevel: the interrupt-based SPI master driver\<close>

text \<open>
  The members of the class, followed by what it reaches through \<open>spiPeripheral_\<close>
  (the registers CR1 and CR2, the peripheral's clock frequency, the words written to
  DR) and the memory its buffers point into.
\<close>

record ChipSpiMasterLowLevel =
  spiMasterBase_' :: "observer option"
  readBuffer_' :: addr
  writeBuffer_' :: addr
  size_' :: size_t
  readPosition_' :: size_t
  writePosition_' :: size_t
  dummyData_' :: "16 word"
  started_' :: bool
  CR1 :: "32 word"
  CR2 :: "32 word"
  peripheralFrequency :: "32 word"
  DR_written :: "16 word list"
  memory :: "addr \<Rightarrow> 8 word"

definition minWordLength :: "8 word" where "minWordLength = 4"
definition maxWordLength :: "8 word" where "maxWordLength = 16"

definition getWordLength :: "16 word \<Rightarrow> 8 word" where
  "getWordLength cr2 = ucast (drop_bit SPI_CR2_DS_Pos (cr2 AND ucast SPI_CR2_DS)) + 1"

text \<open>
  Modelled from the spec: the class declaration (ChipSpiMasterLowLevel.hpp), which
  defines \<open>isStarted\<close> and \<open>isTransferInProgress\<close>, is not among the sources. The driver
  is started from a successful \<open>start\<close> to the next \<open>stop\<close> (the member \<open>started_\<close>), and
  a transfer is in progress (BUSY) from a successful \<open>startTransfer\<close> until the
  completion clears the transfer state (the member \<open>size_\<close> is not zero).
\<close>

definition isStarted :: "ChipSpiMasterLowLevel \<Rightarrow> bool" where
  "isStarted s = started_' s"

definition isTransferInProgress :: "ChipSpiMasterLowLevel \<Rightarrow> bool" where
  "isTransferInProgress s = (size_' s \<noteq> 0)"

definition configure ::
  "SpiMode \<Rightarrow> 32 word \<Rightarrow> 8 word \<Rightarrow> bool \<Rightarrow> 32 word \<Rightarrow> ChipSpiMasterLowLevel
     \<Rightarrow> ((int \<times> 32 word) \<times> ChipSpiMasterLowLevel) outcome" where
  "configure mode clockFrequency wordLength lsbFirst dummyData s =
    (if wordLength < minWordLength \<or> wordLength > maxWordLength then Returns ((EINVAL, 0), s)
     else if isStarted s = False then Returns ((EBADF, 0), s)
     else if isTransferInProgress s = True then Returns ((EBUSY, 0), s)
     else if clockFrequency = 0 then Fault DivisionByZero
     else
       let divider = (peripheralFrequency s + clockFrequency - 1) div clockFrequency in
       if divider > 256 then Returns ((EINVAL, 0), s)
       else
         let br = (if divider \<le> 2 then 0 else 31 - of_nat (builtin_clz (divider - 1))) :: 32 word;
             cr1 = (CR1 s AND NOT (SPI_CR1_LSBFIRST OR SPI_CR1_BR OR SPI_CR1_CPOL OR SPI_CR1_CPHA))
                   OR push_bit SPI_CR1_LSBFIRST_Pos (of_bool32 lsbFirst)
                   OR push_bit SPI_CR1_BR_Pos br
                   OR push_bit SPI_CR1_CPOL_Pos (of_bool32 (mode = cpol1cpha0 \<or> mode = cpol1cpha1))
                   OR push_bit SPI_CR1_CPHA_Pos (of_bool32 (mode = cpol0cpha1 \<or> mode = cpol1cpha1));
             cr2 = (CR2 s AND NOT (SPI_CR2_FRXTH OR SPI_CR2_DS))
                   OR push_bit SPI_CR2_FRXTH_Pos (of_bool32 (wordLength \<le> 8))
                   OR push_bit SPI_CR2_DS_Pos (ucast wordLength - 1)
         in Returns ((0, peripheralFrequency s div push_bit (unat (br + 1)) 1),
                     s\<lparr>CR1 := cr1, CR2 := cr2, dummyData_' := ucast dummyData\<rparr>))"

definition start :: "ChipSpiMasterLowLevel \<Rightarrow> int \<times> ChipSpiMasterLowLevel" where
  "start s =
    (if isStarted s = True then (EBADF, s)
     else (0, s\<lparr>CR1 := SPI_CR1_SSM OR SPI_CR1_SSI OR SPI_CR1_SPE OR SPI_CR1_BR OR SPI_CR1_MSTR,
                CR2 := SPI_CR2_FRXTH OR push_bit SPI_CR2_DS_Pos (8 - 1),
                started_' := True\<rparr>))"

definition startTransfer ::
  "observer \<Rightarrow> addr \<Rightarrow> addr \<Rightarrow> size_t \<Rightarrow> ChipSpiMasterLowLevel \<Rightarrow> int \<times> ChipSpiMasterLowLevel" where
  "startTransfer spiMasterBase writeBuffer readBuffer size' s =
    (if size' = 0 then (EINVAL, s)
     else if isStarted s = False then (EBADF, s)
     else if isTransferInProgress s = True then (EBUSY, s)
     else if size' mod of_nat ((unat (getWordLength (ucast (CR2 s))) + 8 - 1) div 8) \<noteq> 0 then (EINVAL, s)
     else (0, s\<lparr>spiMasterBase_' := Some spiMasterBase,
                readBuffer_' := readBuffer,
                writeBuffer_' := writeBuffer,
                size_' := size',
                readPosition_' := 0,
                writePosition_' := 0,
                CR2 := CR2 s OR (SPI_CR2_TXEIE OR SPI_CR2_RXNEIE OR SPI_CR2_ERRIE)\<rparr>))"

definition stop :: "ChipSpiMasterLowLevel \<Rightarrow> int \<times> ChipSpiMasterLowLevel" where
  "stop s =
    (if isStarted s = False then (EBADF, s)
     else if isTransferInProgress s = True then (EBUSY, s)
     else (0, s\<lparr>CR1 := 0, CR2 := 0, started_' := False\<rparr>))"

text \<open>
  \<open>interruptHandler\<close> reads SR once at its entry, and DR in its first two branches;
  \<open>sr\<close> and \<open>dr\<close> are the values the hardware delivers. The three branches and the
  final block of the function are defined one by one. Each branch gives the flag \<open>done\<close>
  and the state.
\<close>

definition overrunError :: "32 word \<Rightarrow> ChipSpiMasterLowLevel \<Rightarrow> bool \<times> ChipSpiMasterLowLevel" where
  "overrunError sr s = (sr AND SPI_SR_BSY = 0, s\<lparr>CR2 := CR2 s AND NOT SPI_CR2_TXEIE\<rparr>)"

definition readWord :: "8 word \<Rightarrow> 32 word \<Rightarrow> ChipSpiMasterLowLevel \<Rightarrow> bool \<times> ChipSpiMasterLowLevel" where
  "readWord wordLength dr s =
    (let word = (if wordLength \<le> 8 then ucast (ucast dr :: 8 word) else ucast dr) :: 16 word;
         readBuffer = readBuffer_' s;
         readPosition = readPosition_' s;
         (readPosition1, memory1) =
           (if readBuffer \<noteq> nullptr then
              (if wordLength > 8
               then (readPosition + 1 + 1,
                     (memory s)(readBuffer + readPosition := ucast word,
                                readBuffer + (readPosition + 1) := ucast (drop_bit 8 word)))
               else (readPosition + 1, (memory s)(readBuffer + readPosition := ucast word)))
            else (readPosition + of_nat ((unat wordLength + 8 - 1) div 8), memory s));
         s1 = s\<lparr>readPosition_' := readPosition1, memory := memory1\<rparr>
     in if readPosition1 = size_' s1 then (True, s1)
        else (False, s1\<lparr>CR2 := CR2 s1 OR SPI_CR2_TXEIE\<rparr>))"

definition writeWord :: "8 word \<Rightarrow> ChipSpiMasterLowLevel \<Rightarrow> bool \<times> ChipSpiMasterLowLevel" where
  "writeWord wordLength s =
    (let writeBuffer = writeBuffer_' s;
         writePosition = writePosition_' s;
         (writePosition1, word) =
           (if writeBuffer \<noteq> nullptr then
              (let characterLow = ucast (memory s (writeBuffer + writePosition)) :: 16 word;
                   characterHigh = (if wordLength > 8
                                    then ucast (memory s (writeBuffer + (writePosition + 1)))
                                    else 0) :: 16 word
               in (if wordLength > 8 then writePosition + 1 + 1 else writePosition + 1,
                   characterLow OR push_bit 8 characterHigh))
            else (writePosition + of_nat ((unat wordLength + 8 - 1) div 8), dummyData_' s))
     in (False,
         s\<lparr>writePosition_' := writePosition1,
           DR_written := DR_written s @ [if wordLength \<le> 8 then ucast (ucast word :: 8 word) else word],
           CR2 := CR2 s AND NOT SPI_CR2_TXEIE\<rparr>))"

text \<open>
  The final block of \<open>interruptHandler\<close>, which runs when \<open>done\<close> is set. Its last statement
  calls the observer. What the observer does in \<open>transferCompleteEvent\<close> is not code of
  the driver: it is the parameter \<open>transferCompleteEvent\<close>, a function of the observer,
  of the number of bytes and of the driver as it is at the moment of the call, which
  gives the driver as the observer leaves it (the observer may call the driver).
\<close>

type_synonym callback = "observer \<Rightarrow> size_t \<Rightarrow> ChipSpiMasterLowLevel \<Rightarrow> ChipSpiMasterLowLevel outcome"

definition transferDone ::
  "callback \<Rightarrow> ChipSpiMasterLowLevel
     \<Rightarrow> (ChipSpiMasterLowLevel \<times> (observer \<times> size_t) option) outcome" where
  "transferDone transferCompleteEvent s =
    (let s1 = s\<lparr>CR2 := CR2 s AND NOT (SPI_CR2_TXEIE OR SPI_CR2_RXNEIE OR SPI_CR2_ERRIE),
                writePosition_' := 0\<rparr>;
         bytesTransfered = readPosition_' s1;
         s2 = s1\<lparr>readPosition_' := 0, size_' := 0, writeBuffer_' := nullptr, readBuffer_' := nullptr\<rparr>;
         spiMasterBase = spiMasterBase_' s2;
         s3 = s2\<lparr>spiMasterBase_' := None\<rparr>
     in case spiMasterBase of
          None \<Rightarrow> Fault AssertionFailure
        | Some observer \<Rightarrow>
            (case transferCompleteEvent observer bytesTransfered s3 of
               Fault f \<Rightarrow> Fault f
             | Returns s4 \<Rightarrow> Returns (s4, Some (observer, bytesTransfered))))"

text \<open>
  The result of \<open>interruptHandler\<close> is the state of the driver when the function
  returns and, when the transfer is finished, the call
  \<open>spiMasterBase->transferCompleteEvent(bytesTransfered)\<close> that it made.
\<close>

definition interruptHandler ::
  "callback \<Rightarrow> 32 word \<Rightarrow> 32 word \<Rightarrow> ChipSpiMasterLowLevel
     \<Rightarrow> (ChipSpiMasterLowLevel \<times> (observer \<times> size_t) option) outcome" where
  "interruptHandler transferCompleteEvent sr dr s =
    (let cr2 = CR2 s;
         wordLength = getWordLength (ucast cr2);
         (done, s1) =
           (if sr AND SPI_SR_OVR \<noteq> 0 \<and> cr2 AND SPI_CR2_ERRIE \<noteq> 0 then overrunError sr s
            else if sr AND SPI_SR_RXNE \<noteq> 0 \<and> cr2 AND SPI_CR2_RXNEIE \<noteq> 0 then readWord wordLength dr s
            else if sr AND SPI_SR_TXE \<noteq> 0 \<and> cr2 AND SPI_CR2_TXEIE \<noteq> 0 then writeWord wordLength s
            else (False, s))
     in if done = True then transferDone transferCompleteEvent s1 else Returns (s1, None))"

text \<open>
  Two observers. The first does nothing in its callback. The second starts a new
  transfer from within its callback and requires, with an assertion, that
  \<open>startTransfer\<close> returns 0.
\<close>

definition emptyCallback :: callback where
  "emptyCallback observer bytesTransfered s = Returns s"

definition restartCallback :: "observer \<Rightarrow> addr \<Rightarrow> addr \<Rightarrow> size_t \<Rightarrow> callback" where
  "restartCallback spiMasterBase writeBuffer readBuffer size' observer bytesTransfered s =
    (let (ret, s1) = startTransfer spiMasterBase writeBuffer readBuffer size' s
     in if ret \<noteq> 0 then Fault AssertionFailure else Returns s1)"

text \<open>
  A sequence of interrupts, each with the values of SR and DR it finds, delivered to
  a driver whose observer does nothing in its callback. The result lists the calls of
  \<open>transferCompleteEvent\<close> in their order.
\<close>

fun interrupts ::
  "(32 word \<times> 32 word) list \<Rightarrow> ChipSpiMasterLowLevel
     \<Rightarrow> (ChipSpiMasterLowLevel \<times> (observer \<times> size_t) list) outcome" where
  "interrupts [] s = Returns (s, [])"
| "interrupts ((sr, dr) # irqs) s =
    (case interruptHandler emptyCallback sr dr s of
       Fault f \<Rightarrow> Fault f
     | Returns (s1, event) \<Rightarrow>
         (case interrupts irqs s1 of
            Fault f \<Rightarrow> Fault f
          | Returns (s2, events) \<Rightarrow>
              Returns (s2, (case event of None \<Rightarrow> [] | Some e \<Rightarrow> [e]) @ events)))"

text \<open>
  Modelled from the spec: the constructor is in the class declaration, which is not
  among the sources. A new driver is stopped and idle, with no transfer state; the
  registers hold 0 and the memory is blank. The peripheral's clock frequency is given.
\<close>

definition constructed :: "32 word \<Rightarrow> ChipSpiMasterLowLevel" where
  "constructed frequency =
    \<lparr>spiMasterBase_' = None, readBuffer_' = nullptr, writeBuffer_' = nullptr, size_' = 0,
     readPosition_' = 0, writePosition_' = 0, dummyData_' = 0, started_' = False,
     CR1 = 0, CR2 = 0, peripheralFrequency = frequency, DR_written = [],
     memory = (\<lambda>a. 0)\<rparr>"

section \<open>DmaChannel: the DMA channel driver (DMAv2)\<close>

text \<open>
  \<open>DmaChannelFlags\<close>, the enumerators that the SPI driver and the alignment rule of
  \<open>configureTransfer\<close> use.
\<close>

definition transferCompleteInterruptDisable :: "32 word" where
  "transferCompleteInterruptDisable = push_bit 4 0"
definition transferCompleteInterruptEnable :: "32 word" where
  "transferCompleteInterruptEnable = push_bit 4 1"
definition peripheralToMemory :: "32 word" where "peripheralToMemory = push_bit 6 0"
definition memoryToPeripheral :: "32 word" where "memoryToPeripheral = push_bit 6 1"
definition peripheralFixed :: "32 word" where "peripheralFixed = push_bit 9 0"
definition memoryFixed :: "32 word" where "memoryFixed = push_bit 10 0"
definition memoryIncrement :: "32 word" where "memoryIncrement = push_bit 10 1"
definition peripheralDataSize1 :: "32 word" where "peripheralDataSize1 = push_bit 11 0"
definition peripheralDataSize2 :: "32 word" where "peripheralDataSize2 = push_bit 11 1"
definition peripheralDataSize4 :: "32 word" where "peripheralDataSize4 = push_bit 11 2"
definition memoryDataSize1 :: "32 word" where "memoryDataSize1 = push_bit 13 0"
definition memoryDataSize2 :: "32 word" where "memoryDataSize2 = push_bit 13 1"
definition memoryDataSize4 :: "32 word" where "memoryDataSize4 = push_bit 13 2"
definition lowPriority :: "32 word" where "lowPriority = push_bit 16 0"
definition veryHighPriority :: "32 word" where "veryHighPriority = push_bit 16 3"
definition peripheralBurstSize16 :: "32 word" where "peripheralBurstSize16 = push_bit 21 3"
definition memoryBurstSize16 :: "32 word" where "memoryBurstSize16 = push_bit 23 3"
definition dataSize1 :: "32 word" where "dataSize1 = peripheralDataSize1 OR memoryDataSize1"
definition dataSize2 :: "32 word" where "dataSize2 = peripheralDataSize2 OR memoryDataSize2"

text \<open>
  A \<open>DmaChannelFunctor\<close> is known by its identity: the two functors of the SPI driver,
  or the functor of some other user of a channel.
\<close>

datatype DmaChannelFunctor = RxDmaChannelFunctor | TxDmaChannelFunctor | OtherFunctor nat

text \<open>
  The members \<open>functor_\<close> and \<open>request_\<close> of a \<open>DmaChannel\<close>, followed by the registers
  of the channel it drives: the enable bit, the counter of the transactions left, the
  two addresses and the configuration flags.
\<close>

record DmaChannel =
  functor_' :: "DmaChannelFunctor option"
  request_' :: "8 word"
  enabled :: bool
  NDTR :: "32 word"
  M0AR :: addr
  PAR :: addr
  flags :: "32 word"

text \<open>
  Modelled from the spec: the member functions of \<open>DmaChannel\<close> are declared in
  DmaChannel.hpp, and their definitions (DmaChannel.cpp) are not among the sources.
  \<open>reserve\<close> fails with \<open>EBUSY\<close> if the channel is already reserved and with \<open>EINVAL\<close> if
  the request is outside [0; 15]; otherwise it stores the functor and the request.
  \<open>release\<close> clears both.
\<close>

definition DmaChannel_reserve ::
  "8 word \<Rightarrow> DmaChannelFunctor \<Rightarrow> DmaChannel \<Rightarrow> int \<times> DmaChannel" where
  "DmaChannel_reserve request functor c =
    (if functor_' c \<noteq> None then (EBUSY, c)
     else if request > 15 then (EINVAL, c)
     else (0, c\<lparr>functor_' := Some functor, request_' := request\<rparr>))"

definition DmaChannel_release :: "DmaChannel \<Rightarrow> DmaChannel" where
  "DmaChannel_release c = c\<lparr>functor_' := None, request_' := 0\<rparr>"

text \<open>
  Modelled from the spec: \<open>configureTransfer\<close> fails with \<open>EBUSY\<close> if a transfer is
  active; with \<open>EINVAL\<close> if the memory address is not aligned to the memory data size
  times the memory burst size (capped at 16 bytes), or the peripheral address is not
  aligned to the peripheral data size times the peripheral burst size, or there are no
  transactions; with \<open>ENOTSUP\<close> if there are more than 65535 transactions. Otherwise it
  stores the parameters and does not start the channel. The data sizes are 1, 2 or 4
  bytes (bits 11-12 and 13-14 of the flags) and the burst sizes 1, 4, 8 or 16 beats
  (bits 21-22 and 23-24).
\<close>

definition dataSizeOf :: "32 word \<Rightarrow> nat" where
  "dataSizeOf field = 2 ^ unat field"

definition burstSizeOf :: "32 word \<Rightarrow> nat" where
  "burstSizeOf field = (if field = 0 then 1 else 2 ^ (unat field + 1))"

definition memoryAlignment :: "32 word \<Rightarrow> nat" where
  "memoryAlignment fl =
     min 16 (dataSizeOf (drop_bit 13 (fl AND (memoryDataSize1 OR memoryDataSize2 OR memoryDataSize4)))
             * burstSizeOf (drop_bit 23 (fl AND memoryBurstSize16)))"

definition peripheralAlignment :: "32 word \<Rightarrow> nat" where
  "peripheralAlignment fl =
     dataSizeOf (drop_bit 11 (fl AND (peripheralDataSize1 OR peripheralDataSize2 OR peripheralDataSize4)))
       * burstSizeOf (drop_bit 21 (fl AND peripheralBurstSize16))"

definition DmaChannel_configureTransfer ::
  "addr \<Rightarrow> addr \<Rightarrow> size_t \<Rightarrow> 32 word \<Rightarrow> DmaChannel \<Rightarrow> int \<times> DmaChannel" where
  "DmaChannel_configureTransfer memoryAddress peripheralAddress transactions fl c =
    (if enabled c then (EBUSY, c)
     else if unat memoryAddress mod memoryAlignment fl \<noteq> 0 \<or>
             unat peripheralAddress mod peripheralAlignment fl \<noteq> 0 \<or> transactions = 0
       then (EINVAL, c)
     else if transactions > 65535 then (ENOTSUP, c)
     else (0, c\<lparr>NDTR := transactions, M0AR := memoryAddress, PAR := peripheralAddress,
                flags := fl\<rparr>))"

text \<open>
  Modelled from the spec: \<open>getTransactionsLeft\<close> returns the counter of the hardware;
  \<open>startTransfer\<close> enables the channel and fails with \<open>EBUSY\<close> if it is already running;
  \<open>stopTransfer\<close> disables the channel, whether it runs or not.
\<close>

definition DmaChannel_getTransactionsLeft :: "DmaChannel \<Rightarrow> size_t" where
  "DmaChannel_getTransactionsLeft c = NDTR c"

definition DmaChannel_startTransfer :: "DmaChannel \<Rightarrow> int \<times> DmaChannel" where
  "DmaChannel_startTransfer c = (if enabled c then (EBUSY, c) else (0, c\<lparr>enabled := True\<rparr>))"

definition DmaChannel_stopTransfer :: "DmaChannel \<Rightarrow> DmaChannel" where
  "DmaChannel_stopTransfer c = c\<lparr>enabled := False\<rparr>"

section \<open>The machine around the DMA-based driver\<close>

text \<open>
  The effects that leave the driver, in the order in which they happen: the calls of
  member functions of a \<open>DmaChannel\<close> (known by its identity), the writes to the
  registers of the SPI peripheral and the calls of the observer. The trace also holds
  the two assignments of the completion path, \<open>size_ = {}\<close> and \<open>spiMasterBase_ = {}\<close>,
  at their places among the calls.
\<close>

datatype effect =
    ChannelReserve nat "8 word" DmaChannelFunctor
  | ChannelRelease nat
  | ChannelConfigureTransfer nat addr addr size_t "32 word"
  | ChannelGetTransactionsLeft nat
  | ChannelStartTransfer nat
  | ChannelStopTransfer nat
  | WriteCr1 "32 word"
  | WriteCr2 "32 word"
  | TransferCompleteEvent observer size_t
  | SetSize size_t
  | SetSpiMasterBase "observer option"

record machine =
  channels :: "nat \<Rightarrow> DmaChannel"
  trace :: "effect list"

definition call :: "effect \<Rightarrow> machine \<Rightarrow> machine" where
  "call e m = m\<lparr>trace := trace m @ [e]\<rparr>"

subsection \<open>DmaChannel::UniqueHandle\<close>

record UniqueHandle =
  channel_' :: "nat option"

definition UniqueHandle_configureTransfer ::
  "UniqueHandle \<Rightarrow> addr \<Rightarrow> addr \<Rightarrow> size_t \<Rightarrow> 32 word \<Rightarrow> machine \<Rightarrow> int \<times> machine" where
  "UniqueHandle_configureTransfer h memoryAddress peripheralAddress transactions fl m =
    (case channel_' h of
       None \<Rightarrow> (EBADF, m)
     | Some c \<Rightarrow>
         (let (ret, ch) = DmaChannel_configureTransfer memoryAddress peripheralAddress
                            transactions fl (channels m c)
          in (ret, call (ChannelConfigureTransfer c memoryAddress peripheralAddress transactions fl)
                     (m\<lparr>channels := (channels m)(c := ch)\<rparr>))))"

definition UniqueHandle_getTransactionsLeft ::
  "UniqueHandle \<Rightarrow> machine \<Rightarrow> (int \<times> size_t) \<times> machine" where
  "UniqueHandle_getTransactionsLeft h m =
    (case channel_' h of
       None \<Rightarrow> ((EBADF, 0), m)
     | Some c \<Rightarrow> ((0, DmaChannel_getTransactionsLeft (channels m c)),
                  call (ChannelGetTransactionsLeft c) m))"

definition UniqueHandle_release :: "UniqueHandle \<Rightarrow> machine \<Rightarrow> UniqueHandle \<times> machine" where
  "UniqueHandle_release h m =
    (case channel_' h of
       None \<Rightarrow> (h, m)
     | Some c \<Rightarrow>
         (h\<lparr>channel_' := None\<rparr>,
          call (ChannelRelease c) (m\<lparr>channels := (channels m)(c := DmaChannel_release (channels m c))\<rparr>)))"

definition UniqueHandle_reserve ::
  "UniqueHandle \<Rightarrow> nat \<Rightarrow> 8 word \<Rightarrow> DmaChannelFunctor \<Rightarrow> machine
     \<Rightarrow> int \<times> UniqueHandle \<times> machine" where
  "UniqueHandle_reserve h channel request functor m =
    (let (h1, m1) = UniqueHandle_release h m;
         (ret, ch) = DmaChannel_reserve request functor (channels m1 channel);
         m2 = call (ChannelReserve channel request functor)
                (m1\<lparr>channels := (channels m1)(channel := ch)\<rparr>)
     in if ret \<noteq> 0 then (ret, h1, m2)
        else (0, h1\<lparr>channel_' := Some channel\<rparr>, m2))"

definition UniqueHandle_startTransfer :: "UniqueHandle \<Rightarrow> machine \<Rightarrow> int \<times> machine" where
  "UniqueHandle_startTransfer h m =
    (case channel_' h of
       None \<Rightarrow> (EBADF, m)
     | Some c \<Rightarrow>
         (let (ret, ch) = DmaChannel_startTransfer (channels m c)
          in (ret, call (ChannelStartTransfer c) (m\<lparr>channels := (channels m)(c := ch)\<rparr>))))"

definition UniqueHandle_stopTransfer :: "UniqueHandle \<Rightarrow> machine \<Rightarrow> int \<times> machine" where
  "UniqueHandle_stopTransfer h m =
    (case channel_' h of
       None \<Rightarrow> (EBADF, m)
     | Some c \<Rightarrow>
         (0, call (ChannelStopTransfer c)
               (m\<lparr>channels := (channels m)(c := DmaChannel_stopTransfer (channels m c))\<rparr>)))"

section \<open>SpiMasterLowLevelDmaBased: the DMA-based SPI master driver\<close>

text \<open>
  The members of the class. The two channels are known by their identity, the two
  handles are members. Three members have the names of members of the interrupt-based
  driver and carry the prefix \<open>dma_\<close> here: \<open>spiMasterBase_\<close>, \<open>size_\<close> and \<open>started_\<close>.
  \<open>drAddress\<close> is the value of \<open>spiPeripheral_.getDrAddress()\<close>; \<open>rxDummyData_address\<close>
  and \<open>txDummyData_address\<close> are the addresses of the members \<open>rxDummyData_\<close> and
  \<open>txDummyData_\<close>.
\<close>

record SpiMasterLowLevelDmaBased =
  rxDmaChannel_' :: nat
  txDmaChannel_' :: nat
  rxDmaChannelUniqueHandle_' :: UniqueHandle
  txDmaChannelUniqueHandle_' :: UniqueHandle
  dma_spiMasterBase_' :: "observer option"
  dma_size_' :: size_t
  rxDmaRequest_' :: "8 word"
  txDmaRequest_' :: "8 word"
  txDummyData_' :: "16 word"
  dma_started_' :: bool
  wordLength_' :: "8 word"
  drAddress :: addr
  rxDummyData_address :: addr
  txDummyData_address :: addr

text \<open>
  Modelled from the spec: \<open>isStarted\<close> and \<open>isTransferInProgress\<close> are defined in the
  class declaration (SpiMasterLowLevelDmaBased.hpp), which is not among the sources.
  They are taken as in the interrupt-based driver.
\<close>

definition dma_isStarted :: "SpiMasterLowLevelDmaBased \<Rightarrow> bool" where
  "dma_isStarted d = dma_started_' d"

definition dma_isTransferInProgress :: "SpiMasterLowLevelDmaBased \<Rightarrow> bool" where
  "dma_isTransferInProgress d = (dma_size_' d \<noteq> 0)"

text \<open>
  \<open>configure\<close> calls the function \<open>configureSpi\<close>, which is not among the sources: it
  is a parameter here. It writes the registers of the peripheral and returns the status
  and the real clock frequency.
\<close>

definition dma_configure ::
  "(SpiMode \<Rightarrow> 32 word \<Rightarrow> 8 word \<Rightarrow> bool \<Rightarrow> machine \<Rightarrow> (int \<times> 32 word) \<times> machine)
     \<Rightarrow> SpiMode \<Rightarrow> 32 word \<Rightarrow> 8 word \<Rightarrow> bool \<Rightarrow> 32 word
     \<Rightarrow> SpiMasterLowLevelDmaBased \<Rightarrow> machine
     \<Rightarrow> (int \<times> 32 word) \<times> SpiMasterLowLevelDmaBased \<times> machine" where
  "dma_configure configureSpi mode clockFrequency wordLength lsbFirst dummyData d m =
    (if dma_isStarted d = False then ((EBADF, 0), d, m)
     else if dma_isTransferInProgress d = True then ((EBUSY, 0), d, m)
     else
       let (ret, m1) = configureSpi mode clockFrequency wordLength lsbFirst m in
       if fst ret \<noteq> 0 then (ret, d, m1)
       else (ret, d\<lparr>txDummyData_' := ucast dummyData, wordLength_' := wordLength\<rparr>, m1))"

text \<open>
  \<open>start\<close>. The scope guard releases the RX handle when the function is left before
  the guard itself is released, that is when the reservation of the TX channel fails.
\<close>

definition dma_start ::
  "SpiMasterLowLevelDmaBased \<Rightarrow> machine \<Rightarrow> int \<times> SpiMasterLowLevelDmaBased \<times> machine" where
  "dma_start d m =
    (if dma_isStarted d = True then (EBADF, d, m)
     else
       let (ret, rxHandle, m1) =
             UniqueHandle_reserve (rxDmaChannelUniqueHandle_' d) (rxDmaChannel_' d)
               (rxDmaRequest_' d) RxDmaChannelFunctor m;
           d1 = d\<lparr>rxDmaChannelUniqueHandle_' := rxHandle\<rparr>
       in if ret \<noteq> 0 then (ret, d1, m1)
          else
            let (ret, txHandle, m2) =
                  UniqueHandle_reserve (txDmaChannelUniqueHandle_' d1) (txDmaChannel_' d1)
                    (txDmaRequest_' d1) TxDmaChannelFunctor m1;
                d2 = d1\<lparr>txDmaChannelUniqueHandle_' := txHandle\<rparr>
            in if ret \<noteq> 0
               then (let (rxHandle, m3) = UniqueHandle_release (rxDmaChannelUniqueHandle_' d2) m2
                     in (ret, d2\<lparr>rxDmaChannelUniqueHandle_' := rxHandle\<rparr>, m3))
               else
                 (let d3 = d2\<lparr>wordLength_' := 8\<rparr>;
                      m3 = call (WriteCr1 (SPI_CR1_SSM OR SPI_CR1_SSI OR SPI_CR1_SPE OR SPI_CR1_BR
                                           OR SPI_CR1_MSTR)) m2;
                      m4 = call (WriteCr2 (SPI_CR2_FRXTH
                                           OR push_bit SPI_CR2_DS_Pos (ucast (wordLength_' d3) - 1)
                                           OR SPI_CR2_TXDMAEN OR SPI_CR2_RXDMAEN)) m3
                  in (0, d3\<lparr>dma_started_' := True\<rparr>, m4)))"

text \<open>
  \<open>startTransfer\<close>. The remainder \<open>size % dataSize\<close> is an unsigned division, undefined
  when \<open>dataSize\<close> is 0; the two calls of \<open>startTransfer\<close> of the handles are followed by
  \<open>assert(ret == 0)\<close>.
\<close>

definition dma_startTransfer ::
  "observer \<Rightarrow> addr \<Rightarrow> addr \<Rightarrow> size_t \<Rightarrow> SpiMasterLowLevelDmaBased \<Rightarrow> machine
     \<Rightarrow> (int \<times> SpiMasterLowLevelDmaBased \<times> machine) outcome" where
  "dma_startTransfer spiMasterBase writeBuffer readBuffer size' d m =
    (if size' = 0 then Returns (EINVAL, d, m)
     else if dma_isStarted d = False then Returns (EBADF, d, m)
     else if dma_isTransferInProgress d = True then Returns (EBUSY, d, m)
     else
       let dataSize = (unat (wordLength_' d) + 8 - 1) div 8 in
       if dataSize = 0 then Fault DivisionByZero
       else if size' mod of_nat dataSize \<noteq> 0 then Returns (EINVAL, d, m)
       else
         let transactions = size' div of_nat dataSize;
             commonDmaFlags = peripheralFixed OR (if dataSize = 1 then dataSize1 else dataSize2);
             rxMemoryAddress = (if readBuffer \<noteq> nullptr then readBuffer else rxDummyData_address d);
             rxDmaFlags = transferCompleteInterruptEnable OR peripheralToMemory
                          OR (if readBuffer \<noteq> nullptr then memoryIncrement else memoryFixed)
                          OR veryHighPriority;
             (ret, m1) = UniqueHandle_configureTransfer (rxDmaChannelUniqueHandle_' d)
                           rxMemoryAddress (drAddress d) transactions
                           (commonDmaFlags OR rxDmaFlags) m
         in if ret \<noteq> 0 then Returns (ret, d, m1)
            else
              let txMemoryAddress = (if writeBuffer \<noteq> nullptr then writeBuffer
                                     else txDummyData_address d);
                  txDmaFlags = transferCompleteInterruptDisable OR memoryToPeripheral
                               OR (if writeBuffer \<noteq> nullptr then memoryIncrement else 0)
                               OR lowPriority;
                  (ret, m2) = UniqueHandle_configureTransfer (txDmaChannelUniqueHandle_' d)
                                txMemoryAddress (drAddress d) transactions
                                (commonDmaFlags OR txDmaFlags) m1
              in if ret \<noteq> 0 then Returns (ret, d, m2)
                 else
                   let d1 = d\<lparr>dma_spiMasterBase_' := Some spiMasterBase, dma_size_' := size'\<rparr>;
                       (ret, m3) = UniqueHandle_startTransfer (rxDmaChannelUniqueHandle_' d1) m2
                   in if ret \<noteq> 0 then Fault AssertionFailure
                      else
                        let (ret, m4) = UniqueHandle_startTransfer (txDmaChannelUniqueHandle_' d1) m3
                        in if ret \<noteq> 0 then Fault AssertionFailure
                           else Returns (0, d1, m4))"

definition dma_stop ::
  "SpiMasterLowLevelDmaBased \<Rightarrow> machine \<Rightarrow> int \<times> SpiMasterLowLevelDmaBased \<times> machine" where
  "dma_stop d m =
    (if dma_isStarted d = False then (EBADF, d, m)
     else if dma_isTransferInProgress d = True then (EBUSY, d, m)
     else
       let (rxHandle, m1) = UniqueHandle_release (rxDmaChannelUniqueHandle_' d) m;
           (txHandle, m2) = UniqueHandle_release (txDmaChannelUniqueHandle_' d) m1;
           m3 = call (WriteCr1 0) m2;
           m4 = call (WriteCr2 0) m3
       in (0, d\<lparr>rxDmaChannelUniqueHandle_' := rxHandle, txDmaChannelUniqueHandle_' := txHandle,
                dma_started_' := False\<rparr>, m4))"

text \<open>
  \<open>eventHandler\<close>. Its last statement calls the observer. What the observer does in
  \<open>transferCompleteEvent\<close> is not code of the driver: it is the parameter
  \<open>transferCompleteEvent\<close>, a function of the observer, of the number of bytes and of the
  driver and the machine as they are at the moment of the call, which gives the driver
  and the machine as the observer leaves them. The call itself is the last effect that
  \<open>eventHandler\<close> adds to the trace.
\<close>

type_synonym dma_callback =
  "observer \<Rightarrow> size_t \<Rightarrow> SpiMasterLowLevelDmaBased \<Rightarrow> machine
     \<Rightarrow> (SpiMasterLowLevelDmaBased \<times> machine) outcome"

definition eventHandler ::
  "dma_callback \<Rightarrow> size_t \<Rightarrow> SpiMasterLowLevelDmaBased \<Rightarrow> machine
     \<Rightarrow> (SpiMasterLowLevelDmaBased \<times> machine) outcome" where
  "eventHandler transferCompleteEvent transactionsLeft d m =
    (let (ret, m1) = UniqueHandle_stopTransfer (txDmaChannelUniqueHandle_' d) m;
         (ret, m2) = UniqueHandle_stopTransfer (rxDmaChannelUniqueHandle_' d) m1;
         bytesTransfered = dma_size_' d
                           - transactionsLeft * of_nat ((unat (wordLength_' d) + 8 - 1) div 8);
         d1 = d\<lparr>dma_size_' := 0\<rparr>;
         m3 = call (SetSize 0) m2;
         spiMasterBase = dma_spiMasterBase_' d1;
         d2 = d1\<lparr>dma_spiMasterBase_' := None\<rparr>;
         m4 = call (SetSpiMasterBase None) m3
     in case spiMasterBase of
          None \<Rightarrow> Fault AssertionFailure
        | Some observer \<Rightarrow>
            transferCompleteEvent observer bytesTransfered d2
              (call (TransferCompleteEvent observer bytesTransfered) m4))"

definition RxDmaChannelFunctor_transferCompleteEvent ::
  "dma_callback \<Rightarrow> SpiMasterLowLevelDmaBased \<Rightarrow> machine
     \<Rightarrow> (SpiMasterLowLevelDmaBased \<times> machine) outcome" where
  "RxDmaChannelFunctor_transferCompleteEvent transferCompleteEvent owner m =
     eventHandler transferCompleteEvent 0 owner m"

definition RxDmaChannelFunctor_transferErrorEvent ::
  "dma_callback \<Rightarrow> size_t \<Rightarrow> SpiMasterLowLevelDmaBased \<Rightarrow> machine
     \<Rightarrow> (SpiMasterLowLevelDmaBased \<times> machine) outcome" where
  "RxDmaChannelFunctor_transferErrorEvent transferCompleteEvent transactionsLeft owner m =
     eventHandler transferCompleteEvent transactionsLeft owner m"

definition TxDmaChannelFunctor_transferErrorEvent ::
  "dma_callback \<Rightarrow> size_t \<Rightarrow> SpiMasterLowLevelDmaBased \<Rightarrow> machine
     \<Rightarrow> (SpiMasterLowLevelDmaBased \<times> machine) outcome" where
  "TxDmaChannelFunctor_transferErrorEvent transferCompleteEvent transactionsLeft owner m =
     eventHandler transferCompleteEvent transactionsLeft owner m"

text \<open>
  Two observers of the DMA-based driver. The first does nothing in its callback. The
  second starts a new transfer from within its callback and requires, with an
  assertion, that \<open>startTransfer\<close> returns 0.
\<close>

definition dma_emptyCallback :: dma_callback where
  "dma_emptyCallback observer bytesTransfered d m = Returns (d, m)"

definition dma_restartCallback :: "observer \<Rightarrow> addr \<Rightarrow> addr \<Rightarrow> size_t \<Rightarrow> dma_callback" where
  "dma_restartCallback spiMasterBase writeBuffer readBuffer size' observer bytesTransfered d m =
    (case dma_startTransfer spiMasterBase writeBuffer readBuffer size' d m of
       Fault f \<Rightarrow> Fault f
     | Returns (ret, d1, m1) \<Rightarrow> if ret \<noteq> 0 then Fault AssertionFailure else Returns (d1, m1))"

text \<open>
  Modelled from the spec: \<open>DmaChannel::interruptHandler\<close> is not among the sources. On
  a transfer-complete interrupt it calls \<open>transferCompleteEvent\<close> of the functor of the
  channel; on a transfer-error interrupt it calls \<open>transferErrorEvent\<close> with the number
  of transactions left, which it reads from the counter. A channel that is not
  reserved has no functor to call. The functor of the TX channel takes the default,
  empty \<open>transferCompleteEvent\<close>; the functor of another user is outside the driver.
  The parameter \<open>transferCompleteEvent\<close> is what the observer of the SPI driver does in
  its callback.
\<close>

datatype DmaInterrupt = TransferComplete | TransferError

definition DmaChannel_interruptHandler ::
  "dma_callback \<Rightarrow> DmaInterrupt \<Rightarrow> nat \<Rightarrow> SpiMasterLowLevelDmaBased \<Rightarrow> machine
     \<Rightarrow> (SpiMasterLowLevelDmaBased \<times> machine) outcome" where
  "DmaChannel_interruptHandler transferCompleteEvent interrupt c d m =
    (case functor_' (channels m c) of
       None \<Rightarrow> Returns (d, m)
     | Some RxDmaChannelFunctor \<Rightarrow>
         (case interrupt of
            TransferComplete \<Rightarrow> RxDmaChannelFunctor_transferCompleteEvent transferCompleteEvent d m
          | TransferError \<Rightarrow>
              RxDmaChannelFunctor_transferErrorEvent transferCompleteEvent
                (DmaChannel_getTransactionsLeft (channels m c)) d m)
     | Some TxDmaChannelFunctor \<Rightarrow>
         (case interrupt of
            TransferComplete \<Rightarrow> Returns (d, m)
          | TransferError \<Rightarrow>
              TxDmaChannelFunctor_transferErrorEvent transferCompleteEvent
                (DmaChannel_getTransactionsLeft (channels m c)) d m)
     | Some (OtherFunctor n) \<Rightarrow> Returns (d, m))"

text \<open>
  Modelled from the spec: the hardware. While a transfer runs, the counter of the
  transactions left of a channel counts down and stops at 0; \<open>transactionsDone c k\<close>
  is the machine after \<open>k\<close> more transactions of the channel \<open>c\<close>. Nothing else changes
  without a call of the driver.
\<close>

definition transactionsDone :: "nat \<Rightarrow> nat \<Rightarrow> machine \<Rightarrow> machine" where
  "transactionsDone c k m =
     m\<lparr>channels := (channels m)(c := (channels m c)\<lparr>NDTR := of_nat (unat (NDTR (channels m c)) - k)\<rparr>)\<rparr>"

fun hardwareProgress :: "(nat \<times> nat) list \<Rightarrow> machine \<Rightarrow> machine" where
  "hardwareProgress [] m = m"
| "hardwareProgress ((c, k) # steps) m = hardwareProgress steps (transactionsDone c k m)"

text \<open>
  Modelled from the spec: the interrupts of the two DMA channels of the driver, each
  after some transactions of the hardware, delivered to a driver whose observer does
  nothing in its callback. A channel raises an interrupt only while it runs:
  \<open>stopTransfer\<close> disables the channel and clears its pending flags.
\<close>

datatype SpiDmaChannel = RxDma | TxDma

definition dmaChannelOf :: "SpiDmaChannel \<Rightarrow> SpiMasterLowLevelDmaBased \<Rightarrow> nat" where
  "dmaChannelOf which d = (case which of RxDma \<Rightarrow> rxDmaChannel_' d | TxDma \<Rightarrow> txDmaChannel_' d)"

fun dma_interrupts ::
  "((nat \<times> nat) list \<times> DmaInterrupt \<times> SpiDmaChannel) list \<Rightarrow> SpiMasterLowLevelDmaBased
     \<Rightarrow> machine \<Rightarrow> (SpiMasterLowLevelDmaBased \<times> machine) outcome" where
  "dma_interrupts [] d m = Returns (d, m)"
| "dma_interrupts ((steps, interrupt, which) # rest) d m =
    (if \<not> enabled (channels (hardwareProgress steps m) (dmaChannelOf which d))
     then dma_interrupts rest d (hardwareProgress steps m)
     else case DmaChannel_interruptHandler dma_emptyCallback interrupt (dmaChannelOf which d) d
                 (hardwareProgress steps m) of
            Fault f \<Rightarrow> Fault f
          | Returns (d1, m1) \<Rightarrow> dma_interrupts rest d1 m1)"

text \<open>
  Modelled from the spec: the constructors are in the class declarations, which are
  not among the sources. A new handle is associated with no channel; a new channel is
  released and does not run; a new driver is stopped and idle and its handles are new.
\<close>

definition newHandle :: UniqueHandle where
  "newHandle = \<lparr>channel_' = None\<rparr>"

definition newChannel :: DmaChannel where
  "newChannel = \<lparr>functor_' = None, request_' = 0, enabled = False, NDTR = 0, M0AR = 0,
                 PAR = 0, flags = 0\<rparr>"

definition newMachine :: machine where
  "newMachine = \<lparr>channels = (\<lambda>c. newChannel), trace = []\<rparr>"

definition dma_constructed :: "nat \<Rightarrow> 8 word \<Rightarrow> nat \<Rightarrow> 8 word \<Rightarrow> SpiMasterLowLevelDmaBased" where
  "dma_constructed rxDmaChannel rxDmaRequest txDmaChannel txDmaRequest =
    \<lparr>rxDmaChannel_' = rxDmaChannel, txDmaChannel_' = txDmaChannel,
     rxDmaChannelUniqueHandle_' = newHandle, txDmaChannelUniqueHandle_' = newHandle,
     dma_spiMasterBase_' = None, dma_size_' = 0,
     rxDmaRequest_' = rxDmaRequest, txDmaRequest_' = txDmaRequest,
     txDummyData_' = 0, dma_started_' = False, wordLength_' = 0,
     drAddress = 0x4001300C, rxDummyData_address = 0x20001000,
     txDummyData_address = 0x20001002\<rparr>"

subsection \<open>Notions used to state the properties\<close>

text \<open>
  The number of bytes of one word, \<open>(wordLength + 8 - 1) / 8\<close>, for the word length
  that CR2 holds.
\<close>

definition dataSize :: "ChipSpiMasterLowLevel \<Rightarrow> nat" where
  "dataSize s = (unat (getWordLength (ucast (CR2 s))) + 8 - 1) div 8"

text \<open>
  The two kinds of states the driver is in while started. During a transfer of \<open>sz\<close>
  bytes for the observer \<open>obs\<close>, the read position is a whole number of words and is
  below the size. Between transfers no transfer state is held and the three interrupts
  are disabled.
\<close>

definition transferring :: "observer \<Rightarrow> size_t \<Rightarrow> ChipSpiMasterLowLevel \<Rightarrow> bool" where
  "transferring obs sz s \<longleftrightarrow>
     size_' s = sz \<and> sz \<noteq> 0 \<and> spiMasterBase_' s = Some obs \<and>
     unat (readPosition_' s) < unat sz \<and>
     dataSize s dvd unat (readPosition_' s) \<and> dataSize s dvd unat sz"

definition quiescent :: "ChipSpiMasterLowLevel \<Rightarrow> bool" where
  "quiescent s \<longleftrightarrow>
     size_' s = 0 \<and> spiMasterBase_' s = None \<and> CR2 s AND SPI_CR2_ERRIE = 0 \<and>
     CR2 s AND SPI_CR2_RXNEIE = 0 \<and> CR2 s AND SPI_CR2_TXEIE = 0"

text \<open>
  What the spec says of a read buffer that "holds the received halfwords": the
  halfwords lie one after the other from the address \<open>a\<close>, each with its low byte
  first. \<open>received\<close> lists the halfwords that the RXNE interrupts of a sequence of
  interrupts deliver.
\<close>

fun storeHalfwords :: "addr \<Rightarrow> 16 word list \<Rightarrow> (addr \<Rightarrow> 8 word) \<Rightarrow> (addr \<Rightarrow> 8 word)" where
  "storeHalfwords a [] m = m"
| "storeHalfwords a (w # ws) m =
     storeHalfwords (a + 2) ws (m(a := ucast w, a + 1 := ucast (drop_bit 8 w)))"

fun received :: "(32 word \<times> 32 word) list \<Rightarrow> 16 word list" where
  "received [] = []"
| "received ((sr, dr) # irqs) =
     (if sr AND SPI_SR_RXNE \<noteq> 0 then ucast dr # received irqs else received irqs)"

text \<open>
  A transfer of \<open>k\<close> halfwords into the buffer \<open>rb\<close> of which the halfwords \<open>ws\<close> have
  arrived; \<open>m0\<close> is the memory at the start of the transfer.
\<close>

definition receiving ::
  "observer \<Rightarrow> addr \<Rightarrow> (addr \<Rightarrow> 8 word) \<Rightarrow> nat \<Rightarrow> 16 word list \<Rightarrow> ChipSpiMasterLowLevel \<Rightarrow> bool" where
  "receiving obs rb m0 k ws s \<longleftrightarrow>
     size_' s = of_nat (2 * k) \<and> 2 * k < 2 ^ 32 \<and> length ws < k \<and>
     spiMasterBase_' s = Some obs \<and> readBuffer_' s = rb \<and> rb \<noteq> nullptr \<and>
     readPosition_' s = of_nat (2 * length ws) \<and>
     CR2 s AND SPI_CR2_RXNEIE \<noteq> 0 \<and> getWordLength (ucast (CR2 s)) = 16 \<and>
     memory s = storeHalfwords rb ws m0"

text \<open>
  The third scenario of the spec: a driver of an 80 MHz peripheral, started and
  configured for words of 16 bits, and the interrupts of a transfer of five halfwords,
  a TXE interrupt before each RXNE interrupt.
\<close>

definition configured16 :: ChipSpiMasterLowLevel where
  "configured16 = (constructed 80000000)\<lparr>started_' := True, CR1 := 0x344, CR2 := 0xF00\<rparr>"

definition fiveHalfwords :: "(32 word \<times> 32 word) list" where
  "fiveHalfwords =
     [(SPI_SR_TXE, 0), (SPI_SR_RXNE, 0x4939), (SPI_SR_TXE, 0), (SPI_SR_RXNE, 0x376a),
      (SPI_SR_TXE, 0), (SPI_SR_RXNE, 0x29fa), (SPI_SR_TXE, 0), (SPI_SR_RXNE, 0x6c4e),
      (SPI_SR_TXE, 0), (SPI_SR_RXNE, 0x7a87)]"


text \<open>
  States of the DMA-based driver for the examples: a machine whose channel 3 is
  reserved by another user, and a driver with the channels 2 (RX) and 3 (TX) in the
  middle of a transfer of 10 bytes with words of 16 bits.
\<close>

definition txTakenMachine :: machine where
  "txTakenMachine =
     newMachine\<lparr>channels := (channels newMachine)(3 := newChannel\<lparr>functor_' := Some (OtherFunctor 0)\<rparr>)\<rparr>"

definition dma_busy16 :: SpiMasterLowLevelDmaBased where
  "dma_busy16 =
     (dma_constructed 2 1 3 1)
       \<lparr>rxDmaChannelUniqueHandle_' := \<lparr>channel_' = Some 2\<rparr>,
        txDmaChannelUniqueHandle_' := \<lparr>channel_' = Some 3\<rparr>,
        dma_spiMasterBase_' := Some 1, dma_size_' := 10,
        dma_started_' := True, wordLength_' := 16\<rparr>"

text \<open>
  The number of bytes of one word of the DMA-based driver, \<open>(wordLength_ + 8 - 1) / 8\<close>,
  and the alignment of an address to a number of bytes.
\<close>

definition dma_dataSize :: "SpiMasterLowLevelDmaBased \<Rightarrow> nat" where
  "dma_dataSize d = (unat (wordLength_' d) + 8 - 1) div 8"

definition aligned :: "nat \<Rightarrow> addr \<Rightarrow> bool" where
  "aligned n a \<longleftrightarrow> unat a mod n = 0"

text \<open>
  The DMA-based driver between two transfers: it is started and idle, its handles hold
  its two channels, which are two different channels with the functors of the driver
  registered, neither channel runs, and the word length is one that \<open>configureSpi\<close>
  accepts. \<open>start\<close> leaves the driver so (with words of 8 bits) and every completion
  brings it back there.
\<close>

definition dma_ready :: "SpiMasterLowLevelDmaBased \<Rightarrow> machine \<Rightarrow> bool" where
  "dma_ready d m \<longleftrightarrow>
     dma_isStarted d \<and> \<not> dma_isTransferInProgress d \<and>
     channel_' (rxDmaChannelUniqueHandle_' d) = Some (rxDmaChannel_' d) \<and>
     channel_' (txDmaChannelUniqueHandle_' d) = Some (txDmaChannel_' d) \<and>
     rxDmaChannel_' d \<noteq> txDmaChannel_' d \<and>
     functor_' (channels m (rxDmaChannel_' d)) = Some RxDmaChannelFunctor \<and>
     functor_' (channels m (txDmaChannel_' d)) = Some TxDmaChannelFunctor \<and>
     \<not> enabled (channels m (rxDmaChannel_' d)) \<and> \<not> enabled (channels m (txDmaChannel_' d)) \<and>
     minWordLength \<le> wordLength_' d \<and> wordLength_' d \<le> maxWordLength"

text \<open>
  A request that the two channels accept as far as the addresses go: a size that is a
  positive multiple of the word size, and the memory address of each channel (the
  buffer, or the dummy word of the driver when there is no buffer) and the address of
  the data register aligned to the word size.
\<close>

definition dma_request_ok ::
  "addr \<Rightarrow> addr \<Rightarrow> size_t \<Rightarrow> SpiMasterLowLevelDmaBased \<Rightarrow> bool" where
  "dma_request_ok writeBuffer readBuffer sz d \<longleftrightarrow>
     sz \<noteq> 0 \<and> dma_dataSize d dvd unat sz \<and>
     aligned (dma_dataSize d) (if readBuffer \<noteq> nullptr then readBuffer else rxDummyData_address d) \<and>
     aligned (dma_dataSize d) (if writeBuffer \<noteq> nullptr then writeBuffer else txDummyData_address d) \<and>
     aligned (dma_dataSize d) (drAddress d)"

text \<open>
  The calls of the observer in a trace, in their order, and the DMA-based driver
  during a transfer of \<open>sz\<close> bytes for the observer \<open>obs\<close>: both channels run and
  neither counter exceeds the number of words of the transfer.
\<close>

fun transferCompleteEvents :: "effect list \<Rightarrow> (observer \<times> size_t) list" where
  "transferCompleteEvents [] = []"
| "transferCompleteEvents (TransferCompleteEvent obs n # es) = (obs, n) # transferCompleteEvents es"
| "transferCompleteEvents (e # es) = transferCompleteEvents es"

definition dma_busy :: "observer \<Rightarrow> size_t \<Rightarrow> SpiMasterLowLevelDmaBased \<Rightarrow> machine \<Rightarrow> bool" where
  "dma_busy obs sz d m \<longleftrightarrow>
     dma_isStarted d \<and> dma_size_' d = sz \<and> sz \<noteq> 0 \<and> dma_spiMasterBase_' d = Some obs \<and>
     channel_' (rxDmaChannelUniqueHandle_' d) = Some (rxDmaChannel_' d) \<and>
     channel_' (txDmaChannelUniqueHandle_' d) = Some (txDmaChannel_' d) \<and>
     rxDmaChannel_' d \<noteq> txDmaChannel_' d \<and>
     functor_' (channels m (rxDmaChannel_' d)) = Some RxDmaChannelFunctor \<and>
     functor_' (channels m (txDmaChannel_' d)) = Some TxDmaChannelFunctor \<and>
     enabled (channels m (rxDmaChannel_' d)) \<and> enabled (channels m (txDmaChannel_' d)) \<and>
     minWordLength \<le> wordLength_' d \<and> wordLength_' d \<le> maxWordLength \<and>
     unat (NDTR (channels m (rxDmaChannel_' d))) * dma_dataSize d \<le> unat sz \<and>
     unat (NDTR (channels m (txDmaChannel_' d))) * dma_dataSize d \<le> unat sz"

text \<open>
  More states for the examples: the interrupt-based driver configured for words of 12
  bits; the machine and the DMA-based driver that \<open>start\<close> leaves from a new driver of
  the channels 2 and 3 (with the word length as a parameter); the machine in the middle
  of the transfer of \<open>dma_busy16\<close>, with three words left on the RX channel and one on
  the TX channel.
\<close>

definition configured12 :: ChipSpiMasterLowLevel where
  "configured12 = (constructed 80000000)\<lparr>started_' := True, CR1 := 0x344, CR2 := 0xB00\<rparr>"

definition reservedMachine :: machine where
  "reservedMachine =
     \<lparr>channels = (channels newMachine)
        (2 := newChannel\<lparr>functor_' := Some RxDmaChannelFunctor, request_' := 1\<rparr>,
         3 := newChannel\<lparr>functor_' := Some TxDmaChannelFunctor, request_' := 1\<rparr>),
      trace = [ChannelReserve 2 1 RxDmaChannelFunctor, ChannelReserve 3 1 TxDmaChannelFunctor,
               WriteCr1 0x37C, WriteCr2 0x1703]\<rparr>"

definition dma_idle :: "8 word \<Rightarrow> SpiMasterLowLevelDmaBased" where
  "dma_idle wordLength =
     (dma_constructed 2 1 3 1)
       \<lparr>rxDmaChannelUniqueHandle_' := \<lparr>channel_' = Some 2\<rparr>,
        txDmaChannelUniqueHandle_' := \<lparr>channel_' = Some 3\<rparr>,
        dma_started_' := True, wordLength_' := wordLength\<rparr>"

definition busyMachine :: machine where
  "busyMachine =
     reservedMachine\<lparr>channels := (channels reservedMachine)
        (2 := (channels reservedMachine 2)\<lparr>enabled := True, NDTR := 3\<rparr>,
         3 := (channels reservedMachine 3)\<lparr>enabled := True, NDTR := 1\<rparr>)\<rparr>"

text \<open>
  What the hardware signals with an interrupt. For the interrupt-based driver: an
  overrun with the peripheral no longer busy; the arrival of a word without an
  overrun. For the DMA-based driver: every interrupt of its channels but the
  transfer-complete interrupt of the TX channel ends the transfer.
\<close>

definition overrunEnds :: "32 word \<times> 32 word \<Rightarrow> bool" where
  "overrunEnds irq \<longleftrightarrow> fst irq AND SPI_SR_OVR \<noteq> 0 \<and> fst irq AND SPI_SR_BSY = 0"

definition wordArrives :: "32 word \<times> 32 word \<Rightarrow> bool" where
  "wordArrives irq \<longleftrightarrow> fst irq AND SPI_SR_OVR = 0 \<and> fst irq AND SPI_SR_RXNE \<noteq> 0"

definition endsTransfer :: "(nat \<times> nat) list \<times> DmaInterrupt \<times> SpiDmaChannel \<Rightarrow> bool" where
  "endsTransfer ev \<longleftrightarrow> fst (snd ev) = TransferError \<or> snd (snd ev) = RxDma"

text \<open>
  The machine at the call of the observer in the completion of a transfer: both
  channels are stopped, and the trace has got the steps of \<open>eventHandler\<close> up to the call.
\<close>

definition atCompletion :: "observer \<Rightarrow> size_t \<Rightarrow> SpiMasterLowLevelDmaBased \<Rightarrow> machine \<Rightarrow> machine" where
  "atCompletion obs n d m =
     m\<lparr>channels := (channels m)
          (txDmaChannel_' d := (channels m (txDmaChannel_' d))\<lparr>enabled := False\<rparr>,
           rxDmaChannel_' d := (channels m (rxDmaChannel_' d))\<lparr>enabled := False\<rparr>),
       trace := trace m @ [ChannelStopTransfer (txDmaChannel_' d),
                  ChannelStopTransfer (rxDmaChannel_' d), SetSize 0, SetSpiMasterBase None,
                  TransferCompleteEvent obs n]\<rparr>"

text \<open>
  During a transfer of the interrupt-based driver the RXNE and the error interrupt are
  enabled, and \<open>wordsLeft\<close> words have still to be read.
\<close>

definition armed :: "ChipSpiMasterLowLevel \<Rightarrow> bool" where
  "armed s \<longleftrightarrow> CR2 s AND SPI_CR2_ERRIE \<noteq> 0 \<and> CR2 s AND SPI_CR2_RXNEIE \<noteq> 0"

definition wordsLeft :: "ChipSpiMasterLowLevel \<Rightarrow> nat" where
  "wordsLeft s = (unat (size_' s) - unat (readPosition_' s)) div dataSize s"

section \<open>Properties of the interrupt-based driver\<close>

subsection \<open>configure on a driver that is not started\<close>

text \<open>
  \<open>configure\<close> tests the word length before it tests that the driver is started. On a
  driver that is not started it returns "invalid argument" when the word length is
  outside [4; 16] and "bad file descriptor" otherwise; in both cases the frequency
  returned is 0 and the driver is unchanged.
\<close>

lemma configure_stopped:
  assumes "\<not> isStarted s"
  shows "configure mode clockFrequency wordLength lsbFirst dummyData s =
           Returns ((if wordLength < minWordLength \<or> wordLength > maxWordLength
                     then EINVAL else EBADF, 0), s)"
  using assms by (simp add: configure_def)

lemma configure_stopped_example:
  "\<not> isStarted (constructed 80000000) \<and>
   configure cpol0cpha0 0 8 False 0 (constructed 80000000)
     = Returns ((EBADF, 0), constructed 80000000)"
proof -
  have h: "\<not> isStarted (constructed 80000000)"
    by (simp add: isStarted_def constructed_def)
  show ?thesis
    using h configure_stopped [OF h, of cpol0cpha0 0 8 False 0]
    by (simp add: minWordLength_def maxWordLength_def)
qed

text \<open>
  Claim C6. For a driver that has not been started the claim has \<open>configure\<close> fail with
  "bad file descriptor" whatever the arguments, and so has the unit test ("Configuring
  stopped driver should fail with EBADF"). \<open>configure\<close> of the interrupt-based driver
  answers "invalid argument" when the word length is 3, as it tests the word length
  first. \<open>configure\<close> of the DMA-based driver, which tests the state first, answers "bad
  file descriptor" to the same call, whatever \<open>configureSpi\<close> does.
\<close>

theorem configure_not_started_divergence:
  "\<not> isStarted (constructed 80000000) \<and>
   configure cpol0cpha0 0 3 False 0 (constructed 80000000)
     = Returns ((EINVAL, 0), constructed 80000000) \<and>
   EINVAL \<noteq> EBADF \<and>
   \<not> dma_isStarted (dma_constructed 2 1 3 1) \<and>
   dma_configure configureSpi cpol0cpha0 0 3 False 0 (dma_constructed 2 1 3 1) newMachine
     = ((EBADF, 0), dma_constructed 2 1 3 1, newMachine)"
  by (simp add: isStarted_def constructed_def configure_def minWordLength_def
      EINVAL_def EBADF_def dma_isStarted_def dma_constructed_def dma_configure_def)


subsection \<open>configure: the clock divider\<close>

text \<open>
  \<open>__builtin_clz\<close> finds the highest bit that is set: for \<open>x \<noteq> 0\<close>,
  \<open>31 - __builtin_clz(x)\<close> is the integer part of the binary logarithm of \<open>x\<close>.
\<close>

lemma not_bit_top_less:
  fixes y :: nat
  assumes "y < 2 ^ Suc n" "\<not> bit y n"
  shows "y < 2 ^ n"
proof -
  have "y div 2 ^ n < 2" using assms(1) by (simp add: less_mult_imp_div_less mult.commute)
  moreover have "even (y div 2 ^ n)" using assms(2) by (simp add: bit_iff_odd)
  ultimately have "y div 2 ^ n = 0" by (cases "y div 2 ^ n") auto
  then show ?thesis by (simp add: div_eq_0_iff)
qed

lemma bit_nat_ge: fixes y :: nat assumes "bit y n" shows "2 ^ n \<le> y"
proof (rule ccontr)
  assume "\<not> 2 ^ n \<le> y"
  then have "y div 2 ^ n = 0" by simp
  then show False using assms by (simp add: bit_iff_odd)
qed

lemma clz_below_bounds:
  assumes "x \<noteq> 0" "unat x < 2 ^ n"
  shows "clz_below n x < n \<and> 2 ^ (n - 1 - clz_below n x) \<le> unat x \<and> unat x < 2 ^ (n - clz_below n x)"
  using assms
proof (induction n)
  case 0
  then have "unat x = 0" by simp
  then have "x = 0" by (simp only: unat_eq_0)
  with "0.prems"(1) show ?case by simp
next
  case (Suc n)
  show ?case
  proof (cases "bit x n")
    case True
    then have "bit (unat x) n" by (simp add: bit_unsigned_iff)
    then have ge: "2 ^ n \<le> unat x" by (rule bit_nat_ge)
    have c: "clz_below (Suc n) x = 0" using True by simp
    show ?thesis unfolding c using ge Suc.prems(2) by simp
  next
    case False
    then have "\<not> bit (unat x) n" by (simp add: bit_unsigned_iff)
    then have "unat x < 2 ^ n" using not_bit_top_less Suc.prems by blast
    from Suc.IH[OF Suc.prems(1) this]
    have ih: "clz_below n x < n" "2 ^ (n - 1 - clz_below n x) \<le> unat x"
      "unat x < 2 ^ (n - clz_below n x)" by simp_all
    have c: "clz_below (Suc n) x = Suc (clz_below n x)" using False by simp
    have e: "Suc n - 1 - Suc (clz_below n x) = n - 1 - clz_below n x" by simp
    have f: "Suc n - Suc (clz_below n x) = n - clz_below n x" by simp
    show ?thesis unfolding c e f using ih by simp
  qed
qed

lemma builtin_clz_bounds:
  assumes "x \<noteq> 0"
  shows "builtin_clz x \<le> 31 \<and> 2 ^ (31 - builtin_clz x) \<le> unat x \<and> unat x < 2 ^ (32 - builtin_clz x)"
proof -
  have "unat x < 2 ^ 32" using unsigned_less[of x] by simp
  from clz_below_bounds[OF assms this] show ?thesis by (simp add: builtin_clz_def)
qed

text \<open>
  The quotient \<open>(a + b - 1) div b\<close> is the ceiling of \<open>a / b\<close>: it is the least
  \<open>d\<close> with \<open>a \<le> d * b\<close>.
\<close>

lemma ceil_div_le_iff:
  fixes a b d :: nat
  assumes "0 < b"
  shows "(a + b - 1) div b \<le> d \<longleftrightarrow> a \<le> d * b"
proof -
  have "(a + b - 1) div b < Suc d \<longleftrightarrow> a + b - 1 < Suc d * b"
    using assms by (simp only: div_less_iff_less_mult)
  also have "\<dots> \<longleftrightarrow> a \<le> d * b" using assms by auto
  finally show ?thesis by (simp add: less_Suc_eq_le)
qed

lemma unat_sum_minus_one:
  fixes pf cf :: "32 word"
  assumes "cf \<noteq> 0"
  shows "unat (pf + cf - 1) = (unat pf + unat cf - 1) mod 2 ^ 32"
proof -
  have a: "unat (cf - 1) = unat cf - 1" using assms by (simp add: unat_minus_one)
  have b: "0 < unat cf" using assms by (simp add: unat_gt_0)
  have "unat (pf + cf - 1) = unat (pf + (cf - 1))" by (rule arg_cong[where f = unat]) simp
  also have "\<dots> = (unat pf + unat (cf - 1)) mod 2 ^ 32"
    using unat_word_ariths(1)[of pf "cf - 1"] by simp
  also have "unat pf + unat (cf - 1) = unat pf + unat cf - 1" using a b by arith
  finally show ?thesis .
qed

lemma divider_cases:
  fixes pf cf :: "32 word"
  assumes "cf \<noteq> 0" "unat pf \<le> 2 ^ 31"
  defines "D \<equiv> unat ((pf + cf - 1) div cf)"
      and "c \<equiv> (unat pf + unat cf - 1) div unat cf"
  shows "D = c \<or> (D = 0 \<and> c = 1)"
proof (cases "unat pf + unat cf - 1 < 2 ^ 32")
  case True
  then have "unat (pf + cf - 1) = unat pf + unat cf - 1"
    using unat_sum_minus_one[OF assms(1), of pf] by simp
  then show ?thesis by (simp add: D_def c_def unat_div)
next
  case False
  have cf0: "0 < unat cf" using assms(1) by (simp add: unat_gt_0)
  have cfb: "unat cf < 2 ^ 32" using unsigned_less[of cf] by simp
  have pfb: "unat pf < 2 ^ 32" using unsigned_less[of pf] by simp
  define X where "X = unat pf + unat cf - 1"
  have X1: "2 ^ 32 \<le> X" using False by (simp add: X_def)
  have X2: "X - 2 ^ 32 < 2 ^ 32" using pfb cfb by (simp add: X_def)
  have "X mod 2 ^ 32 = (X - 2 ^ 32) mod 2 ^ 32" using X1 by (rule le_mod_geq)
  also have "\<dots> = X - 2 ^ 32" using X2 by (rule mod_less)
  finally have "unat (pf + cf - 1) = unat pf + unat cf - 1 - 2 ^ 32"
    using unat_sum_minus_one[OF assms(1), of pf] by (simp add: X_def)
  then have "unat (pf + cf - 1) < unat cf" using assms(2) False cf0 by simp
  then have "D = 0" by (simp add: D_def unat_div)
  moreover have "c = 1"
    unfolding c_def
  proof (rule div_nat_eqI)
    show "unat cf * 1 \<le> unat pf + unat cf - 1" using False cfb by simp
    show "unat pf + unat cf - 1 < unat cf * Suc 1" using False assms(2) by simp
  qed
  ultimately show ?thesis by simp
qed



lemma br_of_divider:
  fixes divider :: "32 word"
  assumes "divider \<le> 256"
  defines "br \<equiv> (if divider \<le> 2 then 0 else 31 - of_nat (builtin_clz (divider - 1))) :: 32 word"
  shows "unat br \<le> 7 \<and> unat divider \<le> 2 ^ (unat br + 1) \<and> (\<forall>b < unat br. 2 ^ (b + 1) < unat divider)"
proof (cases "divider \<le> 2")
  case True
  then have "unat divider \<le> 2" by (simp add: word_le_nat_alt)
  then show ?thesis using True by (simp add: br_def)
next
  case False
  define x where "x = divider - 1"
  have d2: "2 < unat divider" using False by (simp add: word_le_nat_alt)
  have d256: "unat divider \<le> 256" using assms(1) by (simp add: word_le_nat_alt)
  have dn0: "divider \<noteq> 0" using d2 by auto
  have ux: "unat x = unat divider - 1" unfolding x_def using dn0 by (simp add: unat_minus_one)
  have xn0: "x \<noteq> 0" using ux d2 by auto
  define k where "k = 31 - builtin_clz x"
  from builtin_clz_bounds[OF xn0]
  have c31: "builtin_clz x \<le> 31" and lo: "2 ^ k \<le> unat x"
    and hi0: "unat x < 2 ^ (32 - builtin_clz x)"
    by (simp_all add: k_def)
  have "32 - builtin_clz x = k + 1" using c31 by (simp add: k_def)
  then have hi: "unat x < 2 ^ (k + 1)" using hi0 by simp
  have "(2::nat) ^ k < 2 ^ 8" using lo ux d256 by simp
  then have "k < 8" by (rule power_less_imp_less_exp[rotated]) simp
  then have k7: "k \<le> 7" by simp
  have "(31 - of_nat (builtin_clz x) :: 32 word) = of_nat k"
    using c31 by (simp add: k_def of_nat_diff)
  moreover have "unat (of_nat k :: 32 word) = k" using k7 by (simp add: unat_of_nat)
  ultimately have "unat (31 - of_nat (builtin_clz x) :: 32 word) = k" by simp
  then have ubr: "unat br = k" using False by (simp add: br_def x_def)
  have "\<forall>b < k. (2::nat) ^ (b + 1) < unat divider"
  proof (intro allI impI)
    fix b assume "b < k"
    then have "b + 1 \<le> k" by simp
    then have "(2::nat) ^ (b + 1) \<le> 2 ^ k" by (rule power_increasing) simp
    then show "(2::nat) ^ (b + 1) < unat divider" using lo ux d2 by simp
  qed
  then show ?thesis using ubr k7 hi ux d2 by simp
qed

lemma frequency_of_br:
  fixes br pf :: "32 word"
  assumes "unat br \<le> 7"
  shows "pf div push_bit (unat (br + 1)) 1 = pf div 2 ^ (unat br + 1)"
proof -
  have "unat (br + 1) = unat br + 1" using assms by (simp add: unat_word_ariths)
  then show ?thesis by (simp add: push_bit_eq_mult)
qed

lemma configure_idle:
  assumes "isStarted s" "\<not> isTransferInProgress s"
    and "minWordLength \<le> wordLength" "wordLength \<le> maxWordLength"
    and "clockFrequency \<noteq> 0"
  shows "configure mode clockFrequency wordLength lsbFirst dummyData s =
    (let divider = (peripheralFrequency s + clockFrequency - 1) div clockFrequency in
       if divider > 256 then Returns ((EINVAL, 0), s)
       else
         let br = (if divider \<le> 2 then 0 else 31 - of_nat (builtin_clz (divider - 1))) :: 32 word
         in Returns ((0, peripheralFrequency s div 2 ^ (unat br + 1)),
               s\<lparr>CR1 := (CR1 s AND NOT (SPI_CR1_LSBFIRST OR SPI_CR1_BR OR SPI_CR1_CPOL OR SPI_CR1_CPHA))
                   OR push_bit SPI_CR1_LSBFIRST_Pos (of_bool32 lsbFirst)
                   OR push_bit SPI_CR1_BR_Pos br
                   OR push_bit SPI_CR1_CPOL_Pos (of_bool32 (mode = cpol1cpha0 \<or> mode = cpol1cpha1))
                   OR push_bit SPI_CR1_CPHA_Pos (of_bool32 (mode = cpol0cpha1 \<or> mode = cpol1cpha1)),
                 CR2 := (CR2 s AND NOT (SPI_CR2_FRXTH OR SPI_CR2_DS))
                   OR push_bit SPI_CR2_FRXTH_Pos (of_bool32 (wordLength \<le> 8))
                   OR push_bit SPI_CR2_DS_Pos (ucast wordLength - 1),
                 dummyData_' := ucast dummyData\<rparr>))"
proof -
  define divider where "divider = (peripheralFrequency s + clockFrequency - 1) div clockFrequency"
  have wl: "\<not> wordLength < minWordLength" "\<not> wordLength > maxWordLength"
    using assms(3,4) by simp_all
  show ?thesis
  proof (cases "divider > 256")
    case True
    then show ?thesis using assms(1,2,5) wl by (simp add: configure_def Let_def divider_def)
  next
    case False
    then have "divider \<le> 256" by simp
    from br_of_divider[OF this] have "unat (if divider \<le> 2 then 0 else 31 - of_nat (builtin_clz (divider - 1)) :: 32 word) \<le> 7"
      by simp
    from frequency_of_br[OF this] show ?thesis using False assms(1,2,5) wl
      unfolding configure_def Let_def divider_def[symmetric]
      by simp
  qed
qed

text \<open>
  On a started, idle driver, with a word length in [4; 16], a clock frequency that is
  not 0 and a peripheral clock of at most \<open>2 ^ 31\<close> Hz: let \<open>c\<close> be the ceiling of
  \<open>peripheralFrequency / clockFrequency\<close>. When \<open>c > 256\<close>, \<open>configure\<close> returns "invalid
  argument" and changes nothing. Otherwise it succeeds and returns
  \<open>peripheralFrequency / 2 ^ (br + 1)\<close>, where \<open>br\<close> is the smallest natural number with
  \<open>c \<le> 2 ^ (br + 1)\<close>.
\<close>

lemma configure_divider:
  assumes "isStarted s" and "\<not> isTransferInProgress s"
    and "minWordLength \<le> wordLength" and "wordLength \<le> maxWordLength"
    and "clockFrequency \<noteq> 0"
    and "unat (peripheralFrequency s) \<le> 2 ^ 31"
  shows
    "(let c = (unat (peripheralFrequency s) + unat clockFrequency - 1) div unat clockFrequency in
       (256 < c \<longrightarrow>
          configure mode clockFrequency wordLength lsbFirst dummyData s = Returns ((EINVAL, 0), s)) \<and>
       (c \<le> 256 \<longrightarrow>
          (\<exists>br s1. configure mode clockFrequency wordLength lsbFirst dummyData s
                      = Returns ((0, peripheralFrequency s div 2 ^ (br + 1)), s1)
                  \<and> c \<le> 2 ^ (br + 1) \<and> (\<forall>b < br. 2 ^ (b + 1) < c))))"
proof -
  define pf where "pf = peripheralFrequency s"
  define divider where "divider = (pf + clockFrequency - 1) div clockFrequency"
  define c where "c = (unat pf + unat clockFrequency - 1) div unat clockFrequency"
  define br where "br = (if divider \<le> 2 then 0 else 31 - of_nat (builtin_clz (divider - 1)) :: 32 word)"
  have dc: "unat divider = c \<or> (unat divider = 0 \<and> c = 1)"
    using divider_cases[OF assms(5), of pf] assms(6) unfolding divider_def c_def pf_def by simp
  have cfg: "configure mode clockFrequency wordLength lsbFirst dummyData s =
      (if divider > 256 then Returns ((EINVAL, 0), s)
       else Returns ((0, pf div 2 ^ (unat br + 1)),
               s\<lparr>CR1 := (CR1 s AND NOT (SPI_CR1_LSBFIRST OR SPI_CR1_BR OR SPI_CR1_CPOL OR SPI_CR1_CPHA))
                   OR push_bit SPI_CR1_LSBFIRST_Pos (of_bool32 lsbFirst)
                   OR push_bit SPI_CR1_BR_Pos br
                   OR push_bit SPI_CR1_CPOL_Pos (of_bool32 (mode = cpol1cpha0 \<or> mode = cpol1cpha1))
                   OR push_bit SPI_CR1_CPHA_Pos (of_bool32 (mode = cpol0cpha1 \<or> mode = cpol1cpha1)),
                 CR2 := (CR2 s AND NOT (SPI_CR2_FRXTH OR SPI_CR2_DS))
                   OR push_bit SPI_CR2_FRXTH_Pos (of_bool32 (wordLength \<le> 8))
                   OR push_bit SPI_CR2_DS_Pos (ucast wordLength - 1),
                 dummyData_' := ucast dummyData\<rparr>))"
    unfolding configure_idle[OF assms(1-5)] Let_def divider_def br_def pf_def by (rule refl)
  have u256: "unat (256 :: 32 word) = 256" by simp
  have big: "divider > 256" if "256 < c"
  proof -
    from that dc have "unat divider = c" by auto
    with that show ?thesis unfolding word_less_nat_alt u256 by simp
  qed
  have small: "divider \<le> 256" if "c \<le> 256"
  proof -
    from that dc have "unat divider \<le> 256" by auto
    then show ?thesis unfolding word_le_nat_alt u256 .
  qed
  have brp: "c \<le> 2 ^ (unat br + 1) \<and> (\<forall>b < unat br. 2 ^ (b + 1) < c)" if c256: "c \<le> 256"
  proof -
    from br_of_divider[OF small[OF c256]]
    have p: "unat divider \<le> 2 ^ (unat br + 1)" "\<forall>b < unat br. 2 ^ (b + 1) < unat divider"
      unfolding br_def by simp_all
    show ?thesis
    proof (cases "unat divider = c")
      case True
      then show ?thesis using p by simp
    next
      case False
      then have d0: "unat divider = 0" and c1: "c = 1" using dc by auto
      from d0 have "divider = 0" by (simp only: unat_eq_0)
      then have "br = 0" by (simp add: br_def)
      then show ?thesis using c1 by simp
    qed
  qed
  have one: "256 < c \<longrightarrow>
      configure mode clockFrequency wordLength lsbFirst dummyData s = Returns ((EINVAL, 0), s)"
    using big cfg by simp
  have two: "c \<le> 256 \<longrightarrow>
          (\<exists>br s1. configure mode clockFrequency wordLength lsbFirst dummyData s
                      = Returns ((0, pf div 2 ^ (br + 1)), s1)
                  \<and> c \<le> 2 ^ (br + 1) \<and> (\<forall>b < br. 2 ^ (b + 1) < c))"
  proof
    assume c256: "c \<le> 256"
    have nd: "\<not> divider > 256" using small[OF c256] by simp
    show "\<exists>br s1. configure mode clockFrequency wordLength lsbFirst dummyData s
                      = Returns ((0, pf div 2 ^ (br + 1)), s1)
                  \<and> c \<le> 2 ^ (br + 1) \<and> (\<forall>b < br. 2 ^ (b + 1) < c)"
      apply (rule exI[of _ "unat br"])
      apply (subst cfg)
      apply (simp only: nd if_False)
      apply (rule exI)
      apply (rule conjI)
       apply (rule refl)
      apply (rule brp[OF c256])
      done
  qed
  show ?thesis
    unfolding Let_def c_def[symmetric] pf_def[symmetric]
    using one two by (rule conjI)
qed

lemma configure_divider_example:
  "isStarted (snd (start (constructed 80000000))) \<and>
   \<not> isTransferInProgress (snd (start (constructed 80000000))) \<and>
   minWordLength \<le> 8 \<and> 8 \<le> maxWordLength \<and> (1000000 :: 32 word) \<noteq> 0 \<and>
   unat (peripheralFrequency (snd (start (constructed 80000000)))) \<le> 2 ^ 31 \<and>
   (\<exists>br s1. configure cpol0cpha0 1000000 8 False 0 (snd (start (constructed 80000000)))
               = Returns ((0, 80000000 div 2 ^ (br + 1)), s1)
            \<and> (80 :: nat) \<le> 2 ^ (br + 1) \<and> (\<forall>b < br. 2 ^ (b + 1) < (80 :: nat)))"
proof -
  let ?s = "snd (start (constructed 80000000))"
  have pf: "peripheralFrequency ?s = 80000000"
    by (simp add: start_def constructed_def isStarted_def)
  have h1: "isStarted ?s" by (simp add: start_def constructed_def isStarted_def)
  have h2: "\<not> isTransferInProgress ?s"
    by (simp add: start_def constructed_def isStarted_def isTransferInProgress_def)
  have h3: "minWordLength \<le> 8" by (simp add: minWordLength_def)
  have h4: "8 \<le> maxWordLength" by (simp add: maxWordLength_def)
  have h5: "(1000000 :: 32 word) \<noteq> 0" by simp
  have h6: "unat (peripheralFrequency ?s) \<le> 2 ^ 31" unfolding pf by simp
  have c: "(unat (80000000 :: 32 word) + unat (1000000 :: 32 word) - 1) div unat (1000000 :: 32 word) = 80"
    by simp
  from configure_divider [OF h1 h2 h3 h4 h5 h6, of cpol0cpha0 False 0]
  have "\<exists>br s1. configure cpol0cpha0 1000000 8 False 0 ?s
               = Returns ((0, 80000000 div 2 ^ (br + 1)), s1)
            \<and> (80 :: nat) \<le> 2 ^ (br + 1) \<and> (\<forall>b < br. 2 ^ (b + 1) < (80 :: nat))"
    unfolding pf Let_def c by simp
  with h1 h2 h3 h4 h5 h6 show ?thesis by blast
qed

text \<open>
  The two inputs that the lemma leaves out. With the clock frequency 0 the function
  divides by zero, whatever the peripheral clock. With a peripheral clock above
  \<open>2 ^ 31\<close> Hz the sum \<open>peripheralFrequency + clockFrequency - 1\<close> can wrap around: here
  the ceiling of the quotient is 3, and the function selects the divider 2.
\<close>

lemma configure_zero_clockFrequency:
  assumes "isStarted s" and "\<not> isTransferInProgress s"
    and "minWordLength \<le> wordLength" and "wordLength \<le> maxWordLength"
  shows "configure mode 0 wordLength lsbFirst dummyData s = Fault DivisionByZero"
proof -
  have wl: "\<not> wordLength < minWordLength" "\<not> wordLength > maxWordLength"
    using assms(3,4) by simp_all
  show ?thesis using assms(1,2) wl by (simp add: configure_def)
qed

lemma configure_sum_wraps:
  "fst (start (constructed 0xC0000000)) = 0 \<and>
   (\<exists>cr1 cr2. configure cpol0cpha0 0x40000001 8 False 0 (snd (start (constructed 0xC0000000)))
     = Returns ((0, 0x60000000), (snd (start (constructed 0xC0000000)))\<lparr>CR1 := cr1, CR2 := cr2, dummyData_' := 0\<rparr>)) \<and>
   (unat (0xC0000000 :: 32 word) + unat (0x40000001 :: 32 word) - 1) div unat (0x40000001 :: 32 word) = 3"
  by (simp add: start_def constructed_def isStarted_def isTransferInProgress_def configure_def
      minWordLength_def maxWordLength_def Let_def)

text \<open>
  Claim C5. For the clock frequency 0, the frequency of the call of \<open>configure\<close> in the
  second scenario of the spec and in the unit test, no divider gives a frequency that
  is not above the requested one, and the claim has \<open>configure\<close> fail with "invalid
  argument". The function computes
  \<open>(peripheralFrequency + clockFrequency - 1) / clockFrequency\<close> without a test of
  \<open>clockFrequency\<close>: on a started, idle driver the call divides by zero.
\<close>

theorem configure_divides_by_zero:
  "isStarted (snd (start (constructed 80000000))) \<and>
   \<not> isTransferInProgress (snd (start (constructed 80000000))) \<and>
   configure cpol0cpha0 0 8 False 0xd515 (snd (start (constructed 80000000)))
     = Fault DivisionByZero"
  by (simp add: start_def constructed_def isStarted_def isTransferInProgress_def configure_def
      minWordLength_def maxWordLength_def)

subsection \<open>The bits of CR2\<close>

text \<open>
  The interrupt-enable bits and the data-size field of CR2 do not overlap: setting or
  clearing the former leaves the word length as it is.
\<close>

lemmas SPI_CR2_defs = SPI_CR2_ERRIE_def SPI_CR2_RXNEIE_def SPI_CR2_TXEIE_def SPI_CR2_DS_def
  SPI_CR2_FRXTH_def

lemma getWordLength_cong:
  fixes c c' :: "32 word"
  assumes "c' AND SPI_CR2_DS = c AND SPI_CR2_DS"
  shows "getWordLength (ucast c') = getWordLength (ucast c)"
proof -
  have e: "\<And>x :: 32 word. (ucast x :: 16 word) AND ucast SPI_CR2_DS = ucast (x AND SPI_CR2_DS)"
    by (simp add: unsigned_and_eq)
  show ?thesis unfolding getWordLength_def e assms ..
qed

lemma DS_or_TXEIE [simp]: "(c OR SPI_CR2_TXEIE) AND SPI_CR2_DS = c AND SPI_CR2_DS"
  by (simp add: SPI_CR2_defs bit.conj_disj_distrib2)

lemma DS_clear_TXEIE [simp]: "(c AND NOT SPI_CR2_TXEIE) AND SPI_CR2_DS = c AND SPI_CR2_DS"
  by (simp add: SPI_CR2_defs and.assoc)

lemma DS_clear_IE [simp]:
  "(c AND NOT (SPI_CR2_TXEIE OR SPI_CR2_RXNEIE OR SPI_CR2_ERRIE)) AND SPI_CR2_DS = c AND SPI_CR2_DS"
  by (simp add: SPI_CR2_defs and.assoc)

lemma DS_set_IE [simp]:
  "(c OR (SPI_CR2_TXEIE OR SPI_CR2_RXNEIE OR SPI_CR2_ERRIE)) AND SPI_CR2_DS = c AND SPI_CR2_DS"
  by (simp add: SPI_CR2_defs bit.conj_disj_distrib2)

lemma RXNEIE_or_TXEIE [simp]: "(c OR SPI_CR2_TXEIE) AND SPI_CR2_RXNEIE = c AND SPI_CR2_RXNEIE"
  by (simp add: SPI_CR2_defs bit.conj_disj_distrib2)

lemma RXNEIE_clear_TXEIE [simp]: "(c AND NOT SPI_CR2_TXEIE) AND SPI_CR2_RXNEIE = c AND SPI_CR2_RXNEIE"
  by (simp add: SPI_CR2_defs and.assoc)

lemma ERRIE_or_TXEIE [simp]: "(c OR SPI_CR2_TXEIE) AND SPI_CR2_ERRIE = c AND SPI_CR2_ERRIE"
  by (simp add: SPI_CR2_defs bit.conj_disj_distrib2)

lemma ERRIE_clear_TXEIE [simp]: "(c AND NOT SPI_CR2_TXEIE) AND SPI_CR2_ERRIE = c AND SPI_CR2_ERRIE"
  by (simp add: SPI_CR2_defs and.assoc)

lemma IE_clear_IE [simp]:
  "(c AND NOT (SPI_CR2_TXEIE OR SPI_CR2_RXNEIE OR SPI_CR2_ERRIE)) AND SPI_CR2_TXEIE = 0"
  "(c AND NOT (SPI_CR2_TXEIE OR SPI_CR2_RXNEIE OR SPI_CR2_ERRIE)) AND SPI_CR2_RXNEIE = 0"
  "(c AND NOT (SPI_CR2_TXEIE OR SPI_CR2_RXNEIE OR SPI_CR2_ERRIE)) AND SPI_CR2_ERRIE = 0"
  by (simp_all add: SPI_CR2_defs and.assoc)

lemma or_and_absorb: "(c OR m) AND k = k" if "m AND k = k" for c m k :: "32 word"
proof -
  have "(c OR m) AND k = (c AND k) OR (m AND k)" by (rule bit.conj_disj_distrib2)
  also have "\<dots> = (c AND k) OR k" using that by simp
  also have "\<dots> = k" by (rule bit_word_eqI) (auto simp: bit_simps)
  finally show ?thesis .
qed

lemma IE_set_IE [simp]:
  "(c OR (SPI_CR2_TXEIE OR SPI_CR2_RXNEIE OR SPI_CR2_ERRIE)) AND SPI_CR2_TXEIE \<noteq> 0"
  "(c OR (SPI_CR2_TXEIE OR SPI_CR2_RXNEIE OR SPI_CR2_ERRIE)) AND SPI_CR2_RXNEIE \<noteq> 0"
  "(c OR (SPI_CR2_TXEIE OR SPI_CR2_RXNEIE OR SPI_CR2_ERRIE)) AND SPI_CR2_ERRIE \<noteq> 0"
proof -
  have a: "(SPI_CR2_TXEIE OR SPI_CR2_RXNEIE OR SPI_CR2_ERRIE) AND SPI_CR2_TXEIE = SPI_CR2_TXEIE"
    by (simp add: SPI_CR2_defs)
  have b: "(SPI_CR2_TXEIE OR SPI_CR2_RXNEIE OR SPI_CR2_ERRIE) AND SPI_CR2_RXNEIE = SPI_CR2_RXNEIE"
    by (simp add: SPI_CR2_defs)
  have c: "(SPI_CR2_TXEIE OR SPI_CR2_RXNEIE OR SPI_CR2_ERRIE) AND SPI_CR2_ERRIE = SPI_CR2_ERRIE"
    by (simp add: SPI_CR2_defs)
  show "(c OR (SPI_CR2_TXEIE OR SPI_CR2_RXNEIE OR SPI_CR2_ERRIE)) AND SPI_CR2_TXEIE \<noteq> 0"
    unfolding or_and_absorb[OF a] by (simp add: SPI_CR2_defs)
  show "(c OR (SPI_CR2_TXEIE OR SPI_CR2_RXNEIE OR SPI_CR2_ERRIE)) AND SPI_CR2_RXNEIE \<noteq> 0"
    unfolding or_and_absorb[OF b] by (simp add: SPI_CR2_defs)
  show "(c OR (SPI_CR2_TXEIE OR SPI_CR2_RXNEIE OR SPI_CR2_ERRIE)) AND SPI_CR2_ERRIE \<noteq> 0"
    unfolding or_and_absorb[OF c] by (simp add: SPI_CR2_defs)
qed

lemma TXEIE_or_TXEIE [simp]: "(c OR SPI_CR2_TXEIE) AND SPI_CR2_TXEIE \<noteq> 0"
proof -
  have "SPI_CR2_TXEIE AND SPI_CR2_TXEIE = SPI_CR2_TXEIE" by simp
  from or_and_absorb[OF this] show ?thesis by (simp add: SPI_CR2_defs)
qed

lemma TXEIE_clear_TXEIE [simp]: "(c AND NOT SPI_CR2_TXEIE) AND SPI_CR2_TXEIE = 0"
  by (simp add: and.assoc)

lemma getWordLength_start: "getWordLength (ucast (SPI_CR2_FRXTH OR push_bit SPI_CR2_DS_Pos (8 - 1) :: 32 word)) = 8"
  by (simp add: getWordLength_def SPI_CR2_defs SPI_CR2_DS_Pos_def)

lemma word8_cases:
  fixes w :: "8 word"
  assumes "4 \<le> w" "w \<le> 16"
  shows "w \<in> {4,5,6,7,8,9,10,11,12,13,14,15,16}"
proof -
  have "4 \<le> unat w" "unat w \<le> 16" using assms by (simp_all add: word_le_nat_alt)
  then have "unat w \<in> {4,5,6,7,8,9,10,11,12,13,14,15,16}"
    by (simp only: insert_iff empty_iff) arith
  then have "of_nat (unat w) \<in> (of_nat ` {4,5,6,7,8,9,10,11,12,13,14,15,16} :: 8 word set)" by blast
  then show ?thesis by simp
qed

lemma DS_configure:
  fixes c :: "32 word" and wordLength :: "8 word"
  assumes "minWordLength \<le> wordLength" "wordLength \<le> maxWordLength"
  shows "getWordLength (ucast ((c AND NOT (SPI_CR2_FRXTH OR SPI_CR2_DS))
                   OR push_bit SPI_CR2_FRXTH_Pos (of_bool32 (wordLength \<le> 8))
                   OR push_bit SPI_CR2_DS_Pos (ucast wordLength - 1))) = wordLength"
proof -
  have e: "\<And>x :: 32 word. (ucast x :: 16 word) AND ucast SPI_CR2_DS = ucast (x AND SPI_CR2_DS)"
    by (simp add: unsigned_and_eq)
  have f: "\<And>b. push_bit SPI_CR2_FRXTH_Pos (of_bool32 b) AND SPI_CR2_DS = 0"
    by (simp add: of_bool32_def SPI_CR2_FRXTH_Pos_def SPI_CR2_defs)
  have g: "(c AND NOT (SPI_CR2_FRXTH OR SPI_CR2_DS)) AND SPI_CR2_DS = 0"
    by (simp add: SPI_CR2_defs and.assoc)
  have cases: "wordLength \<in> {4,5,6,7,8,9,10,11,12,13,14,15,16}"
    using word8_cases assms by (simp add: minWordLength_def maxWordLength_def)
  have h: "ucast (drop_bit SPI_CR2_DS_Pos (ucast (push_bit SPI_CR2_DS_Pos (ucast wordLength - 1 :: 32 word) AND SPI_CR2_DS) :: 16 word)) + 1 = wordLength"
    using cases by (auto simp: SPI_CR2_defs SPI_CR2_DS_Pos_def)
  show ?thesis
    unfolding getWordLength_def e bit.conj_disj_distrib2 f g using h by simp
qed

subsection \<open>The branches of the interrupt handler\<close>

lemma getWordLength_range: "1 \<le> unat (getWordLength c) \<and> unat (getWordLength c) \<le> 16"
proof -
  have "c AND ucast SPI_CR2_DS \<le> ucast SPI_CR2_DS" by (rule word_and_le1)
  then have "unat (c AND ucast SPI_CR2_DS) \<le> 3840"
    by (simp add: word_le_nat_alt SPI_CR2_DS_def)
  then have "unat (c AND ucast SPI_CR2_DS) div 2 ^ 8 \<le> 15" by simp
  moreover have "unat (drop_bit 8 (c AND ucast SPI_CR2_DS)) = drop_bit 8 (unat (c AND ucast SPI_CR2_DS))"
    by (rule unat_drop_bit_eq)
  moreover have "drop_bit 8 (unat (c AND ucast SPI_CR2_DS)) = unat (c AND ucast SPI_CR2_DS) div 2 ^ 8"
    by (rule drop_bit_eq_div)
  ultimately have "unat (drop_bit SPI_CR2_DS_Pos (c AND ucast SPI_CR2_DS)) \<le> 15"
    unfolding SPI_CR2_DS_Pos_def by (simp only:)
  then have a: "unat (ucast (drop_bit SPI_CR2_DS_Pos (c AND ucast SPI_CR2_DS)) :: 8 word) \<le> 15"
    by (simp add: unsigned_ucast_eq take_bit_nat_eq_self)
  then have "unat (ucast (drop_bit SPI_CR2_DS_Pos (c AND ucast SPI_CR2_DS)) + 1 :: 8 word)
      = unat (ucast (drop_bit SPI_CR2_DS_Pos (c AND ucast SPI_CR2_DS)) :: 8 word) + 1"
    by (simp add: unat_word_ariths)
  then show ?thesis using a by (simp add: getWordLength_def)
qed

lemma dataSize_cases: "dataSize s = (if getWordLength (ucast (CR2 s)) \<le> 8 then 1 else 2)"
proof -
  have "unat (8 :: 8 word) = 8" by simp
  then have "getWordLength (ucast (CR2 s)) \<le> 8 \<longleftrightarrow> unat (getWordLength (ucast (CR2 s))) \<le> 8"
    by (simp add: word_le_nat_alt)
  then show ?thesis using getWordLength_range[of "ucast (CR2 s)"]
    by (auto simp: dataSize_def)
qed

lemma dataSize_cong: "CR2 s' AND SPI_CR2_DS = CR2 s AND SPI_CR2_DS \<Longrightarrow> dataSize s' = dataSize s"
  using getWordLength_cong[of "CR2 s'" "CR2 s"] by (simp add: dataSize_def)

lemma emptyCallback_Returns [simp]: "emptyCallback observer bytesTransfered s = Returns s"
  by (simp add: emptyCallback_def)

lemma interruptHandler_idle:
  assumes "CR2 s AND SPI_CR2_ERRIE = 0" "CR2 s AND SPI_CR2_RXNEIE = 0" "CR2 s AND SPI_CR2_TXEIE = 0"
  shows "interruptHandler emptyCallback sr dr s = Returns (s, None)"
  using assms by (simp add: interruptHandler_def)

lemma transferDone_Some:
  assumes "spiMasterBase_' s = Some obs"
  shows "\<exists>s'. transferDone emptyCallback s = Returns (s', Some (obs, readPosition_' s))
     \<and> size_' s' = 0 \<and> spiMasterBase_' s' = None \<and> readPosition_' s' = 0 \<and> writePosition_' s' = 0
     \<and> readBuffer_' s' = nullptr \<and> writeBuffer_' s' = nullptr
     \<and> CR2 s' = CR2 s AND NOT (SPI_CR2_TXEIE OR SPI_CR2_RXNEIE OR SPI_CR2_ERRIE)
     \<and> memory s' = memory s \<and> started_' s' = started_' s \<and> CR1 s' = CR1 s
     \<and> peripheralFrequency s' = peripheralFrequency s \<and> dummyData_' s' = dummyData_' s
     \<and> DR_written s' = DR_written s"
  using assms by (simp add: transferDone_def Let_def)

lemma readWord_fields:
  "size_' (snd (readWord wl dr s)) = size_' s"
  "spiMasterBase_' (snd (readWord wl dr s)) = spiMasterBase_' s"
  "started_' (snd (readWord wl dr s)) = started_' s"
  "readBuffer_' (snd (readWord wl dr s)) = readBuffer_' s"
  "CR2 (snd (readWord wl dr s)) AND SPI_CR2_DS = CR2 s AND SPI_CR2_DS"
  "CR2 (snd (readWord wl dr s)) AND SPI_CR2_RXNEIE = CR2 s AND SPI_CR2_RXNEIE"
  "CR2 (snd (readWord wl dr s)) AND SPI_CR2_ERRIE = CR2 s AND SPI_CR2_ERRIE"
  "fst (readWord wl dr s) = (readPosition_' (snd (readWord wl dr s)) = size_' s)"
  by (simp_all add: readWord_def Let_def split: prod.splits)

lemma readWord_position:
  assumes "wl = getWordLength (ucast (CR2 s))"
  shows "readPosition_' (snd (readWord wl dr s)) = readPosition_' s + of_nat (dataSize s)"
proof (cases "readBuffer_' s = nullptr")
  case True
  then show ?thesis using assms by (simp add: readWord_def Let_def dataSize_def)
next
  case False
  show ?thesis
  proof (cases "wl \<le> 8")
    case True
    then have "\<not> 8 < wl" by simp
    then show ?thesis using True False assms dataSize_cases[of s]
      by (simp add: readWord_def Let_def add.commute)
  next
    case f: False
    then have "8 < wl" by simp
    then show ?thesis using f False assms dataSize_cases[of s]
      by (simp add: readWord_def Let_def add.commute)
  qed
qed

lemma readWord_memory:
  "memory (snd (readWord wl dr s)) =
     (if readBuffer_' s \<noteq> nullptr then
        (if wl > 8
         then (memory s)(readBuffer_' s + readPosition_' s := ucast (ucast dr :: 16 word),
                readBuffer_' s + (readPosition_' s + 1) := ucast (drop_bit 8 (ucast dr :: 16 word)))
         else (memory s)(readBuffer_' s + readPosition_' s := ucast (ucast (ucast dr :: 8 word) :: 16 word)))
      else memory s)"
proof (cases "readBuffer_' s = nullptr")
  case True
  then show ?thesis by (simp add: readWord_def Let_def)
next
  case False
  show ?thesis
  proof (cases "wl \<le> 8")
    case True
    then have "\<not> 8 < wl" by simp
    then show ?thesis using True False by (simp add: readWord_def Let_def)
  next
    case f: False
    then have "8 < wl" by simp
    then show ?thesis using f False by (simp add: readWord_def Let_def)
  qed
qed

lemma writeWord_fields:
  "fst (writeWord wl s) = False"
  "size_' (snd (writeWord wl s)) = size_' s"
  "spiMasterBase_' (snd (writeWord wl s)) = spiMasterBase_' s"
  "started_' (snd (writeWord wl s)) = started_' s"
  "readBuffer_' (snd (writeWord wl s)) = readBuffer_' s"
  "readPosition_' (snd (writeWord wl s)) = readPosition_' s"
  "memory (snd (writeWord wl s)) = memory s"
  "CR2 (snd (writeWord wl s)) AND SPI_CR2_DS = CR2 s AND SPI_CR2_DS"
  "CR2 (snd (writeWord wl s)) AND SPI_CR2_RXNEIE = CR2 s AND SPI_CR2_RXNEIE"
  "CR2 (snd (writeWord wl s)) AND SPI_CR2_ERRIE = CR2 s AND SPI_CR2_ERRIE"
  by (simp_all add: writeWord_def Let_def split: prod.splits)

lemma overrunError_fields:
  "fst (overrunError sr s) = (sr AND SPI_SR_BSY = 0)"
  "size_' (snd (overrunError sr s)) = size_' s"
  "spiMasterBase_' (snd (overrunError sr s)) = spiMasterBase_' s"
  "started_' (snd (overrunError sr s)) = started_' s"
  "readBuffer_' (snd (overrunError sr s)) = readBuffer_' s"
  "readPosition_' (snd (overrunError sr s)) = readPosition_' s"
  "memory (snd (overrunError sr s)) = memory s"
  "CR2 (snd (overrunError sr s)) AND SPI_CR2_DS = CR2 s AND SPI_CR2_DS"
  "CR2 (snd (overrunError sr s)) AND SPI_CR2_RXNEIE = CR2 s AND SPI_CR2_RXNEIE"
  "CR2 (snd (overrunError sr s)) AND SPI_CR2_ERRIE = CR2 s AND SPI_CR2_ERRIE"
  by (simp_all add: overrunError_def)

subsection \<open>The transfer invariant\<close>

text \<open>
  An interrupt during a transfer either leaves the transfer in progress and calls
  nobody, or ends it with one call of \<open>transferCompleteEvent\<close>, whose argument is at
  most the size of the transfer. An interrupt between transfers does nothing.
\<close>

lemma interruptHandler_branches:
  "interruptHandler emptyCallback sr dr s =
    (let x = (if sr AND SPI_SR_OVR \<noteq> 0 \<and> CR2 s AND SPI_CR2_ERRIE \<noteq> 0 then overrunError sr s
              else if sr AND SPI_SR_RXNE \<noteq> 0 \<and> CR2 s AND SPI_CR2_RXNEIE \<noteq> 0
                then readWord (getWordLength (ucast (CR2 s))) dr s
              else if sr AND SPI_SR_TXE \<noteq> 0 \<and> CR2 s AND SPI_CR2_TXEIE \<noteq> 0
                then writeWord (getWordLength (ucast (CR2 s))) s
              else (False, s))
     in if fst x then transferDone emptyCallback (snd x) else Returns (snd x, None))"
  by (simp add: interruptHandler_def Let_def case_prod_beta)

lemma transferDone_quiescent:
  assumes "spiMasterBase_' s = Some obs"
  shows "\<exists>s'. transferDone emptyCallback s = Returns (s', Some (obs, readPosition_' s)) \<and> quiescent s'
           \<and> memory s' = memory s \<and> started_' s' = started_' s
           \<and> CR2 s' AND SPI_CR2_DS = CR2 s AND SPI_CR2_DS"
proof -
  from transferDone_Some[OF assms] obtain s' where
    s': "transferDone emptyCallback s = Returns (s', Some (obs, readPosition_' s))"
      "size_' s' = 0" "spiMasterBase_' s' = None"
      "CR2 s' = CR2 s AND NOT (SPI_CR2_TXEIE OR SPI_CR2_RXNEIE OR SPI_CR2_ERRIE)"
      "memory s' = memory s" "started_' s' = started_' s"
    by blast
  have "CR2 s' AND SPI_CR2_TXEIE = 0" "CR2 s' AND SPI_CR2_RXNEIE = 0" "CR2 s' AND SPI_CR2_ERRIE = 0"
    unfolding s'(4) by (rule IE_clear_IE)+
  then have "quiescent s'" using s'(2,3) by (simp add: quiescent_def)
  moreover have "CR2 s' AND SPI_CR2_DS = CR2 s AND SPI_CR2_DS" unfolding s'(4) by (rule DS_clear_IE)
  ultimately show ?thesis using s'(1,5,6) by blast
qed

lemma next_word_fits:
  fixes p sz :: "32 word" and d :: nat
  assumes "unat p < unat sz" "d dvd unat p" "d dvd unat sz"
  shows "unat (p + of_nat d) = unat p + d" and "unat p + d \<le> unat sz"
proof -
  have "d dvd unat sz - unat p" using assms(2,3) by (rule dvd_diff_nat[rotated])
  moreover have "0 < unat sz - unat p" using assms(1) by simp
  ultimately have "d \<le> unat sz - unat p" by (rule dvd_imp_le)
  then show le: "unat p + d \<le> unat sz" using assms(1) by simp
  have szb: "unat sz < 2 ^ 32" using unsigned_less[of sz] by simp
  have "unat (of_nat d :: 32 word) = d" using le szb by (simp add: unat_of_nat)
  moreover have "unat p + d < 2 ^ 32" using le szb by simp
  ultimately show "unat (p + of_nat d) = unat p + d" by (simp add: unat_word_ariths)
qed

lemma interruptHandler_transferring:
  assumes t: "transferring obs sz s"
  shows "(\<exists>s'. interruptHandler emptyCallback sr dr s = Returns (s', None) \<and> transferring obs sz s') \<or>
         (\<exists>s' n. interruptHandler emptyCallback sr dr s = Returns (s', Some (obs, n)) \<and> n \<le> sz \<and> quiescent s')"
proof -
  define wl where "wl = getWordLength (ucast (CR2 s))"
  from t have sz: "size_' s = sz" "sz \<noteq> 0" and ob: "spiMasterBase_' s = Some obs"
    and lt: "unat (readPosition_' s) < unat sz"
    and dv: "dataSize s dvd unat (readPosition_' s)" "dataSize s dvd unat sz"
    by (simp_all add: transferring_def)
  define c1 where "c1 \<longleftrightarrow> sr AND SPI_SR_OVR \<noteq> 0 \<and> CR2 s AND SPI_CR2_ERRIE \<noteq> 0"
  define c2 where "c2 \<longleftrightarrow> sr AND SPI_SR_RXNE \<noteq> 0 \<and> CR2 s AND SPI_CR2_RXNEIE \<noteq> 0"
  define c3 where "c3 \<longleftrightarrow> sr AND SPI_SR_TXE \<noteq> 0 \<and> CR2 s AND SPI_CR2_TXEIE \<noteq> 0"
  have br: "interruptHandler emptyCallback sr dr s =
    (let x = (if c1 then overrunError sr s
              else if c2 then readWord wl dr s
              else if c3 then writeWord wl s
              else (False, s))
     in if fst x then transferDone emptyCallback (snd x) else Returns (snd x, None))"
    unfolding interruptHandler_branches c1_def c2_def c3_def wl_def ..
  consider (ovr) "c1" | (rx) "\<not> c1" "c2" | (tx) "\<not> c1" "\<not> c2" "c3"
    | (none) "\<not> c1" "\<not> c2" "\<not> c3"
    by blast
  then show ?thesis
  proof cases
    case ovr
    let ?x = "overrunError sr s"
    have h: "interruptHandler emptyCallback sr dr s = (if fst ?x then transferDone emptyCallback (snd ?x) else Returns (snd ?x, None))"
      unfolding br using ovr by (simp add: Let_def)
    have ds: "dataSize (snd ?x) = dataSize s" by (rule dataSize_cong) (rule overrunError_fields)
    show ?thesis
    proof (cases "fst ?x")
      case True
      have "spiMasterBase_' (snd ?x) = Some obs" using ob by (simp add: overrunError_fields)
      from transferDone_quiescent[OF this] obtain s' where
        "transferDone emptyCallback (snd ?x) = Returns (s', Some (obs, readPosition_' (snd ?x)))" "quiescent s'"
        by blast
      moreover have "readPosition_' (snd ?x) \<le> sz"
        using lt by (simp add: overrunError_fields word_le_nat_alt)
      ultimately show ?thesis using h True by simp
    next
      case False
      have "transferring obs sz (snd ?x)"
        using t ds by (simp add: transferring_def overrunError_fields)
      then show ?thesis using h False by simp
    qed
  next
    case rx
    let ?x = "readWord wl dr s"
    have h: "interruptHandler emptyCallback sr dr s = (if fst ?x then transferDone emptyCallback (snd ?x) else Returns (snd ?x, None))"
      unfolding br using rx by (simp add: Let_def)
    have ds: "dataSize (snd ?x) = dataSize s" by (rule dataSize_cong) (rule readWord_fields)
    have pos: "readPosition_' (snd ?x) = readPosition_' s + of_nat (dataSize s)"
      by (rule readWord_position) (rule wl_def)
    from next_word_fits[OF lt dv]
    have u: "unat (readPosition_' (snd ?x)) = unat (readPosition_' s) + dataSize s"
      and le: "unat (readPosition_' s) + dataSize s \<le> unat sz"
      unfolding pos by simp_all
    show ?thesis
    proof (cases "fst ?x")
      case True
      then have e: "readPosition_' (snd ?x) = sz" using sz by (simp add: readWord_fields)
      have "spiMasterBase_' (snd ?x) = Some obs" using ob by (simp add: readWord_fields)
      from transferDone_quiescent[OF this] obtain s' where
        "transferDone emptyCallback (snd ?x) = Returns (s', Some (obs, readPosition_' (snd ?x)))" "quiescent s'"
        by blast
      then show ?thesis using h True e by simp
    next
      case False
      then have "readPosition_' (snd ?x) \<noteq> sz" using sz by (simp add: readWord_fields)
      then have "unat (readPosition_' (snd ?x)) \<noteq> unat sz" by (simp add: word_unat_eq_iff)
      then have "unat (readPosition_' (snd ?x)) < unat sz" using u le by simp
      moreover have "dataSize s dvd unat (readPosition_' (snd ?x))" unfolding u using dv(1) by simp
      ultimately have "transferring obs sz (snd ?x)"
        using sz ob dv(2) ds by (simp add: transferring_def readWord_fields)
      then show ?thesis using h False by simp
    qed
  next
    case tx
    let ?x = "writeWord wl s"
    have h: "interruptHandler emptyCallback sr dr s = Returns (snd ?x, None)"
      unfolding br using tx by (simp add: Let_def writeWord_fields)
    have ds: "dataSize (snd ?x) = dataSize s" by (rule dataSize_cong) (rule writeWord_fields)
    have "transferring obs sz (snd ?x)"
      using t ds by (simp add: transferring_def writeWord_fields)
    then show ?thesis using h by simp
  next
    case none
    have h: "interruptHandler emptyCallback sr dr s = Returns (s, None)"
      unfolding br using none by (simp add: Let_def)
    then show ?thesis using t by simp
  qed
qed

lemma interruptHandler_quiescent:
  assumes "quiescent s"
  shows "interruptHandler emptyCallback sr dr s = Returns (s, None)"
  using assms by (simp add: quiescent_def interruptHandler_idle)

lemma interrupts_quiescent:
  assumes "quiescent s"
  shows "interrupts irqs s = Returns (s, [])"
  using assms by (induction irqs) (auto simp: interruptHandler_quiescent)

lemma interrupts_transferring:
  assumes "transferring obs sz s"
  shows "\<exists>s' events. interrupts irqs s = Returns (s', events) \<and>
           ((transferring obs sz s' \<and> events = []) \<or>
            (quiescent s' \<and> (\<exists>n. events = [(obs, n)] \<and> n \<le> sz)))"
  using assms
proof (induction irqs arbitrary: s)
  case Nil
  then show ?case by simp
next
  case (Cons irq irqs)
  obtain sr dr where irq: "irq = (sr, dr)" by (cases irq)
  from interruptHandler_transferring[OF Cons.prems, of sr dr]
  show ?case
  proof (elim disjE exE conjE)
    fix s1 assume a: "interruptHandler emptyCallback sr dr s = Returns (s1, None)" "transferring obs sz s1"
    from Cons.IH[OF a(2)] obtain s' events where
      "interrupts irqs s1 = Returns (s', events)"
      "(transferring obs sz s' \<and> events = []) \<or> (quiescent s' \<and> (\<exists>n. events = [(obs, n)] \<and> n \<le> sz))"
      by blast
    then show ?thesis using a(1) by (simp add: irq)
  next
    fix s1 n assume a: "interruptHandler emptyCallback sr dr s = Returns (s1, Some (obs, n))" "n \<le> sz" "quiescent s1"
    from interrupts_quiescent[OF a(3)] have "interrupts irqs s1 = Returns (s1, [])" .
    then show ?thesis using a by (simp add: irq)
  qed
qed

subsection \<open>startTransfer and the completion\<close>

lemma dataSize_range: "dataSize s = 1 \<or> dataSize s = 2"
  using dataSize_cases[of s] by (cases "getWordLength (ucast (CR2 s)) \<le> 8") simp_all

lemma mod_dataSize_iff:
  fixes sz :: "32 word"
  shows "sz mod of_nat (dataSize s) = 0 \<longleftrightarrow> dataSize s dvd unat sz"
proof -
  have d: "unat (of_nat (dataSize s) :: 32 word) = dataSize s"
    using dataSize_range[of s] by (auto simp: unat_of_nat)
  have "sz mod of_nat (dataSize s) = 0 \<longleftrightarrow> unat (sz mod of_nat (dataSize s)) = 0"
    by (simp only: unat_eq_0)
  also have "\<dots> \<longleftrightarrow> unat sz mod dataSize s = 0" by (simp only: unat_mod d)
  also have "\<dots> \<longleftrightarrow> dataSize s dvd unat sz" by (simp only: dvd_eq_mod_eq_0)
  finally show ?thesis .
qed

lemma startTransfer_idle:
  assumes "isStarted s" and "\<not> isTransferInProgress s"
  shows "startTransfer obs writeBuffer readBuffer sz s =
    (if sz = 0 \<or> \<not> dataSize s dvd unat sz then (EINVAL, s)
     else (0, s\<lparr>spiMasterBase_' := Some obs,
                readBuffer_' := readBuffer,
                writeBuffer_' := writeBuffer,
                size_' := sz,
                readPosition_' := 0,
                writePosition_' := 0,
                CR2 := CR2 s OR (SPI_CR2_TXEIE OR SPI_CR2_RXNEIE OR SPI_CR2_ERRIE)\<rparr>))"
proof -
  have m: "sz mod of_nat ((unat (getWordLength (ucast (CR2 s))) + 8 - 1) div 8) = 0
      \<longleftrightarrow> dataSize s dvd unat sz"
    using mod_dataSize_iff[of sz s] unfolding dataSize_def .
  show ?thesis unfolding startTransfer_def m using assms by simp
qed

lemma startTransfer_success:
  assumes "startTransfer obs writeBuffer readBuffer sz s = (0, s1)"
  shows "isStarted s \<and> \<not> isTransferInProgress s \<and> sz \<noteq> 0 \<and> dataSize s dvd unat sz \<and>
     s1 = s\<lparr>spiMasterBase_' := Some obs,
                readBuffer_' := readBuffer,
                writeBuffer_' := writeBuffer,
                size_' := sz,
                readPosition_' := 0,
                writePosition_' := 0,
                CR2 := CR2 s OR (SPI_CR2_TXEIE OR SPI_CR2_RXNEIE OR SPI_CR2_ERRIE)\<rparr>"
proof -
  have m: "sz mod of_nat ((unat (getWordLength (ucast (CR2 s))) + 8 - 1) div 8) = 0
      \<longleftrightarrow> dataSize s dvd unat sz"
    using mod_dataSize_iff[of sz s] unfolding dataSize_def .
  show ?thesis using assms unfolding startTransfer_def m
    by (auto simp: EINVAL_def EBADF_def EBUSY_def split: if_splits)
qed

lemma startTransfer_transferring:
  assumes "startTransfer obs writeBuffer readBuffer sz s = (0, s1)"
  shows "transferring obs sz s1"
proof -
  from startTransfer_success[OF assms] have
    sz: "sz \<noteq> 0" and dv: "dataSize s dvd unat sz" and
    s1: "s1 = s\<lparr>spiMasterBase_' := Some obs,
                readBuffer_' := readBuffer,
                writeBuffer_' := writeBuffer,
                size_' := sz,
                readPosition_' := 0,
                writePosition_' := 0,
                CR2 := CR2 s OR (SPI_CR2_TXEIE OR SPI_CR2_RXNEIE OR SPI_CR2_ERRIE)\<rparr>"
    by simp_all
  have "CR2 s1 AND SPI_CR2_DS = CR2 s AND SPI_CR2_DS" unfolding s1 by simp
  then have ds: "dataSize s1 = dataSize s" by (rule dataSize_cong)
  have "0 < unat sz" using sz by (simp add: unat_gt_0)
  then show ?thesis using sz dv ds unfolding transferring_def by (simp add: s1)
qed

lemma transferDone_result:
  assumes "transferDone emptyCallback x = Returns (s', Some (obs, n))"
  shows "spiMasterBase_' x = Some obs \<and> n = readPosition_' x \<and>
     s' = x\<lparr>CR2 := CR2 x AND NOT (SPI_CR2_TXEIE OR SPI_CR2_RXNEIE OR SPI_CR2_ERRIE),
            writePosition_' := 0, readPosition_' := 0, size_' := 0,
            writeBuffer_' := nullptr, readBuffer_' := nullptr, spiMasterBase_' := None\<rparr>"
  using assms by (auto simp: transferDone_def Let_def split: option.splits)

lemma interruptHandler_event:
  assumes "interruptHandler emptyCallback sr dr s = Returns (s', Some (obs, n))"
  shows "\<exists>x. transferDone emptyCallback x = Returns (s', Some (obs, n)) \<and> started_' x = started_' s \<and>
           CR2 x AND SPI_CR2_DS = CR2 s AND SPI_CR2_DS"
proof -
  define wl where "wl = getWordLength (ucast (CR2 s))"
  define c1 where "c1 \<longleftrightarrow> sr AND SPI_SR_OVR \<noteq> 0 \<and> CR2 s AND SPI_CR2_ERRIE \<noteq> 0"
  define c2 where "c2 \<longleftrightarrow> sr AND SPI_SR_RXNE \<noteq> 0 \<and> CR2 s AND SPI_CR2_RXNEIE \<noteq> 0"
  define c3 where "c3 \<longleftrightarrow> sr AND SPI_SR_TXE \<noteq> 0 \<and> CR2 s AND SPI_CR2_TXEIE \<noteq> 0"
  define x where "x = (if c1 then overrunError sr s
              else if c2 then readWord wl dr s
              else if c3 then writeWord wl s
              else (False, s))"
  have br: "interruptHandler emptyCallback sr dr s =
     (if fst x then transferDone emptyCallback (snd x) else Returns (snd x, None))"
    unfolding interruptHandler_branches c1_def c2_def c3_def wl_def x_def Let_def ..
  have "fst x" using assms unfolding br by (cases "fst x") simp_all
  then have "transferDone emptyCallback (snd x) = Returns (s', Some (obs, n))" using assms unfolding br by simp
  moreover have "started_' (snd x) = started_' s"
    unfolding x_def by (simp add: overrunError_fields readWord_fields writeWord_fields)
  moreover have "CR2 (snd x) AND SPI_CR2_DS = CR2 s AND SPI_CR2_DS"
    unfolding x_def by (simp add: overrunError_fields readWord_fields writeWord_fields)
  ultimately show ?thesis by blast
qed

lemma interruptHandler_completion:
  assumes "interruptHandler emptyCallback sr dr s = Returns (s', Some (obs, n))"
  shows "spiMasterBase_' s' = None \<and> size_' s' = 0 \<and> readPosition_' s' = 0 \<and>
         writePosition_' s' = 0 \<and> readBuffer_' s' = nullptr \<and> writeBuffer_' s' = nullptr \<and>
         CR2 s' AND SPI_CR2_TXEIE = 0 \<and> CR2 s' AND SPI_CR2_RXNEIE = 0 \<and> CR2 s' AND SPI_CR2_ERRIE = 0 \<and>
         \<not> isTransferInProgress s' \<and> isStarted s' = isStarted s \<and> dataSize s' = dataSize s"
proof -
  from interruptHandler_event[OF assms] obtain x where
    x: "transferDone emptyCallback x = Returns (s', Some (obs, n))" "started_' x = started_' s"
       "CR2 x AND SPI_CR2_DS = CR2 s AND SPI_CR2_DS" by blast
  from transferDone_result[OF x(1)] have
    s': "s' = x\<lparr>CR2 := CR2 x AND NOT (SPI_CR2_TXEIE OR SPI_CR2_RXNEIE OR SPI_CR2_ERRIE),
            writePosition_' := 0, readPosition_' := 0, size_' := 0,
            writeBuffer_' := nullptr, readBuffer_' := nullptr, spiMasterBase_' := None\<rparr>"
    by simp
  have cr: "CR2 s' = CR2 x AND NOT (SPI_CR2_TXEIE OR SPI_CR2_RXNEIE OR SPI_CR2_ERRIE)"
    unfolding s' by simp
  have ie: "CR2 s' AND SPI_CR2_TXEIE = 0" "CR2 s' AND SPI_CR2_RXNEIE = 0" "CR2 s' AND SPI_CR2_ERRIE = 0"
    unfolding cr by (rule IE_clear_IE)+
  have "CR2 s' AND SPI_CR2_DS = CR2 s AND SPI_CR2_DS" unfolding cr DS_clear_IE by (rule x(3))
  then have ds: "dataSize s' = dataSize s" by (rule dataSize_cong)
  have f: "spiMasterBase_' s' = None" "size_' s' = 0" "readPosition_' s' = 0"
         "writePosition_' s' = 0" "readBuffer_' s' = nullptr" "writeBuffer_' s' = nullptr"
         "started_' s' = started_' x"
    unfolding s' by simp_all
  show ?thesis using f ie ds x(2) by (simp add: isTransferInProgress_def isStarted_def)
qed

subsection \<open>A transfer of halfwords\<close>

lemma storeHalfwords_snoc:
  "storeHalfwords a (ws @ [w]) m =
     (storeHalfwords a ws m)(a + of_nat (2 * length ws) := ucast w,
                             a + (of_nat (2 * length ws) + 1) := ucast (drop_bit 8 w))"
proof (induction ws arbitrary: a m)
  case Nil
  show ?case by (simp add: fun_eq_iff)
next
  case (Cons x ws)
  have e: "a + 2 + of_nat (2 * length ws) = a + of_nat (2 * length (x # ws))"
    "a + 2 + (of_nat (2 * length ws) + 1) = a + (of_nat (2 * length (x # ws)) + 1)"
    by simp_all
  show ?case unfolding append_Cons storeHalfwords.simps Cons.IH e ..
qed

lemma of_nat_eq_32:
  fixes a b :: nat
  assumes "a < 2 ^ 32" "b < 2 ^ 32"
  shows "(of_nat a :: 32 word) = of_nat b \<longleftrightarrow> a = b"
proof
  assume "(of_nat a :: 32 word) = of_nat b"
  then have "unat (of_nat a :: 32 word) = unat (of_nat b :: 32 word)" by simp
  then show "a = b" using assms by (simp add: unat_of_nat)
qed simp

lemma receiving_other:
  assumes r: "receiving obs rb m0 k ws s"
    and ovr: "sr AND SPI_SR_OVR = 0" and rx: "sr AND SPI_SR_RXNE = 0"
  shows "\<exists>s'. interruptHandler emptyCallback sr dr s = Returns (s', None) \<and> receiving obs rb m0 k ws s'"
proof -
  define wl where "wl = getWordLength (ucast (CR2 s))"
  let ?x = "writeWord wl s"
  show ?thesis
  proof (cases "sr AND SPI_SR_TXE \<noteq> 0 \<and> CR2 s AND SPI_CR2_TXEIE \<noteq> 0")
    case True
    then have h: "interruptHandler emptyCallback sr dr s = Returns (snd ?x, None)"
      unfolding interruptHandler_branches wl_def using ovr rx by (simp add: Let_def writeWord_fields)
    have "getWordLength (ucast (CR2 (snd ?x))) = getWordLength (ucast (CR2 s))"
      by (rule getWordLength_cong) (rule writeWord_fields)
    then have "receiving obs rb m0 k ws (snd ?x)"
      using r by (simp add: receiving_def writeWord_fields)
    then show ?thesis using h by blast
  next
    case False
    then have "interruptHandler emptyCallback sr dr s = Returns (s, None)"
      unfolding interruptHandler_branches using ovr rx by (auto simp: Let_def)
    then show ?thesis using r by blast
  qed
qed

lemma receiving_halfword:
  assumes r: "receiving obs rb m0 k ws s"
    and ovr: "sr AND SPI_SR_OVR = 0" and rx: "sr AND SPI_SR_RXNE \<noteq> 0"
  shows "if Suc (length ws) = k
         then \<exists>s'. interruptHandler emptyCallback sr dr s = Returns (s', Some (obs, of_nat (2 * k))) \<and>
                quiescent s' \<and> memory s' = storeHalfwords rb (ws @ [ucast dr]) m0
         else \<exists>s'. interruptHandler emptyCallback sr dr s = Returns (s', None) \<and>
                receiving obs rb m0 k (ws @ [ucast dr]) s'"
proof -
  define wl where "wl = getWordLength (ucast (CR2 s))"
  from r have sz: "size_' s = of_nat (2 * k)" and kb: "2 * k < 2 ^ 32" and len: "length ws < k"
    and ob: "spiMasterBase_' s = Some obs" and rb: "readBuffer_' s = rb" "rb \<noteq> nullptr"
    and rp: "readPosition_' s = of_nat (2 * length ws)"
    and ie: "CR2 s AND SPI_CR2_RXNEIE \<noteq> 0" and w16: "wl = 16"
    and mem: "memory s = storeHalfwords rb ws m0"
    by (simp_all add: receiving_def wl_def)
  let ?x = "readWord wl dr s"
  have h: "interruptHandler emptyCallback sr dr s = (if fst ?x then transferDone emptyCallback (snd ?x) else Returns (snd ?x, None))"
    unfolding interruptHandler_branches wl_def using ovr rx ie by (simp add: Let_def)
  have ds: "dataSize s = 2" using dataSize_cases[of s] w16 by (simp add: wl_def)
  have pos: "readPosition_' (snd ?x) = of_nat (2 * Suc (length ws))"
    using readWord_position[of wl s dr] ds rp by (simp add: wl_def)
  have m: "memory (snd ?x) = storeHalfwords rb (ws @ [ucast dr]) m0"
    unfolding readWord_memory storeHalfwords_snoc using rb w16 mem rp by simp
  have fin: "fst ?x \<longleftrightarrow> Suc (length ws) = k"
  proof -
    have "2 * Suc (length ws) < 2 ^ 32" using len kb by simp
    then have a: "(of_nat (2 * Suc (length ws)) :: 32 word) = of_nat (2 * k)
        \<longleftrightarrow> 2 * Suc (length ws) = 2 * k"
      using kb by (rule of_nat_eq_32)
    have b: "2 * Suc (length ws) = 2 * k \<longleftrightarrow> Suc (length ws) = k" by arith
    show ?thesis unfolding readWord_fields(8) pos sz a b ..
  qed
  show ?thesis
  proof (cases "Suc (length ws) = k")
    case True
    have "spiMasterBase_' (snd ?x) = Some obs" using ob by (simp add: readWord_fields)
    from transferDone_quiescent[OF this] obtain s' where
      "transferDone emptyCallback (snd ?x) = Returns (s', Some (obs, readPosition_' (snd ?x)))" "quiescent s'"
      "memory s' = memory (snd ?x)"
      by blast
    then show ?thesis using True h fin pos m by simp
  next
    case False
    have "getWordLength (ucast (CR2 (snd ?x))) = getWordLength (ucast (CR2 s))"
      by (rule getWordLength_cong) (rule readWord_fields)
    then have "receiving obs rb m0 k (ws @ [ucast dr]) (snd ?x)"
      using r False len pos m by (simp add: receiving_def readWord_fields wl_def)
    then show ?thesis using False h fin by auto
  qed
qed

lemma interrupts_receiving_partial:
  assumes "receiving obs rb m0 k ws s"
    and "\<forall>irq \<in> set irqs. fst irq AND SPI_SR_OVR = 0"
    and "length ws + length (received irqs) < k"
  shows "\<exists>s'. interrupts irqs s = Returns (s', []) \<and> receiving obs rb m0 k (ws @ received irqs) s'"
  using assms
proof (induction irqs arbitrary: s ws)
  case Nil
  then show ?case by simp
next
  case (Cons irq irqs)
  obtain sr dr where irq: "irq = (sr, dr)" by (cases irq)
  have ovr: "sr AND SPI_SR_OVR = 0" and rest: "\<forall>irq \<in> set irqs. fst irq AND SPI_SR_OVR = 0"
    using Cons.prems(2) by (simp_all add: irq)
  show ?case
  proof (cases "sr AND SPI_SR_RXNE = 0")
    case True
    from receiving_other[OF Cons.prems(1) ovr True, of dr] obtain s1 where
      s1: "interruptHandler emptyCallback sr dr s = Returns (s1, None)" "receiving obs rb m0 k ws s1" by blast
    have "length ws + length (received irqs) < k" using Cons.prems(3) True by (simp add: irq)
    from Cons.IH[OF s1(2) rest this] show ?thesis using s1(1) True by (auto simp: irq)
  next
    case False
    have n: "Suc (length ws) \<noteq> k" using Cons.prems(3) False by (simp add: irq)
    from receiving_halfword[OF Cons.prems(1) ovr False, of dr] n obtain s1 where
      s1: "interruptHandler emptyCallback sr dr s = Returns (s1, None)" "receiving obs rb m0 k (ws @ [ucast dr]) s1"
      by auto
    have "length (ws @ [ucast dr]) + length (received irqs) < k"
      using Cons.prems(3) False by (simp add: irq)
    from Cons.IH[OF s1(2) rest this] show ?thesis using s1(1) False by (auto simp: irq)
  qed
qed

lemma interrupts_receiving_complete:
  assumes "receiving obs rb m0 k ws s"
    and "\<forall>irq \<in> set irqs. fst irq AND SPI_SR_OVR = 0"
    and "length ws + length (received irqs) = k"
  shows "\<exists>s'. interrupts irqs s = Returns (s', [(obs, of_nat (2 * k))]) \<and>
              memory s' = storeHalfwords rb (ws @ received irqs) m0 \<and> quiescent s'"
  using assms
proof (induction irqs arbitrary: s ws)
  case Nil
  then show ?case by (simp add: receiving_def)
next
  case (Cons irq irqs)
  obtain sr dr where irq: "irq = (sr, dr)" by (cases irq)
  have ovr: "sr AND SPI_SR_OVR = 0" and rest: "\<forall>irq \<in> set irqs. fst irq AND SPI_SR_OVR = 0"
    using Cons.prems(2) by (simp_all add: irq)
  show ?case
  proof (cases "sr AND SPI_SR_RXNE = 0")
    case True
    from receiving_other[OF Cons.prems(1) ovr True, of dr] obtain s1 where
      s1: "interruptHandler emptyCallback sr dr s = Returns (s1, None)" "receiving obs rb m0 k ws s1" by blast
    have "length ws + length (received irqs) = k" using Cons.prems(3) True by (simp add: irq)
    from Cons.IH[OF s1(2) rest this] show ?thesis using s1(1) True by (auto simp: irq)
  next
    case False
    show ?thesis
    proof (cases "Suc (length ws) = k")
      case last: True
      from receiving_halfword[OF Cons.prems(1) ovr False, of dr] last obtain s1 where
        s1: "interruptHandler emptyCallback sr dr s = Returns (s1, Some (obs, of_nat (2 * k)))" "quiescent s1"
          "memory s1 = storeHalfwords rb (ws @ [ucast dr]) m0"
        by auto
      have e: "received (irq # irqs) = ucast dr # received irqs" using False by (simp add: irq)
      have "length ws + Suc (length (received irqs)) = k" using Cons.prems(3) unfolding e by simp
      with last have "length (received irqs) = 0" by arith
      then have r0: "received irqs = []" by simp
      from interrupts_quiescent[OF s1(2)] have "interrupts irqs s1 = Returns (s1, [])" .
      then show ?thesis using s1 False r0 by (auto simp: irq)
    next
      case more: False
      from receiving_halfword[OF Cons.prems(1) ovr False, of dr] more obtain s1 where
        s1: "interruptHandler emptyCallback sr dr s = Returns (s1, None)" "receiving obs rb m0 k (ws @ [ucast dr]) s1"
        by auto
      have "length (ws @ [ucast dr]) + length (received irqs) = k"
        using Cons.prems(3) False by (simp add: irq)
      from Cons.IH[OF s1(2) rest this] show ?thesis using s1(1) False by (auto simp: irq)
    qed
  qed
qed

text \<open>
  Claim C9. The driver is started, idle and configured for words of 16 bits; a
  transfer of 10 bytes into a read buffer is started, and interrupts without overrun
  follow, five of them with RXNE set. Every RXNE interrupt reads one halfword, stores
  its low byte and then its high byte at the read position and advances the read
  position by 2: as long as fewer than five halfwords have arrived no callback is made,
  the read position is twice the number of halfwords and the buffer holds them. With
  the fifth the callback is made, once, with \<open>bytesTransferred = 10\<close>, and the
  read buffer holds exactly the five halfwords received.
\<close>

theorem halfword_transfer:
  assumes "isStarted s" and "\<not> isTransferInProgress s"
    and "getWordLength (ucast (CR2 s)) = 16"
    and "readBuffer \<noteq> nullptr"
    and "\<forall>irq \<in> set irqs. fst irq AND SPI_SR_OVR = 0"
    and "length (received irqs) = 5"
  shows "\<exists>s1 s2. startTransfer obs writeBuffer readBuffer 10 s = (0, s1) \<and>
           interrupts irqs s1 = Returns (s2, [(obs, 10)]) \<and>
           memory s2 = storeHalfwords readBuffer (received irqs) (memory s) \<and>
           (\<forall>j. length (received (take j irqs)) < 5 \<longrightarrow>
              (\<exists>sj. interrupts (take j irqs) s1 = Returns (sj, []) \<and>
                    readPosition_' sj = 2 * of_nat (length (received (take j irqs))) \<and>
                    memory sj = storeHalfwords readBuffer (received (take j irqs)) (memory s)))"
proof -
  define s1 where "s1 = s\<lparr>spiMasterBase_' := Some obs,
                readBuffer_' := readBuffer,
                writeBuffer_' := writeBuffer,
                size_' := 10,
                readPosition_' := 0,
                writePosition_' := 0,
                CR2 := CR2 s OR (SPI_CR2_TXEIE OR SPI_CR2_RXNEIE OR SPI_CR2_ERRIE)\<rparr>"
  have ds: "dataSize s = 2" using dataSize_cases[of s] assms(3) by simp
  have st: "startTransfer obs writeBuffer readBuffer 10 s = (0, s1)"
    unfolding startTransfer_idle[OF assms(1,2)] s1_def using ds by simp
  have "getWordLength (ucast (CR2 s1)) = getWordLength (ucast (CR2 s))"
    by (rule getWordLength_cong) (simp add: s1_def)
  then have r: "receiving obs readBuffer (memory s) 5 [] s1"
    using assms(3,4) by (simp add: receiving_def s1_def)
  from interrupts_receiving_complete[OF r assms(5)] assms(6)
  obtain s2 where s2: "interrupts irqs s1 = Returns (s2, [(obs, 10)])"
    "memory s2 = storeHalfwords readBuffer (received irqs) (memory s)"
    by auto
  have part: "\<exists>sj. interrupts (take j irqs) s1 = Returns (sj, []) \<and>
                    readPosition_' sj = 2 * of_nat (length (received (take j irqs))) \<and>
                    memory sj = storeHalfwords readBuffer (received (take j irqs)) (memory s)"
    if j: "length (received (take j irqs)) < 5" for j
  proof -
    have "\<forall>irq \<in> set (take j irqs). fst irq AND SPI_SR_OVR = 0"
      using assms(5) by (meson in_set_takeD)
    from interrupts_receiving_partial[OF r this] j
    obtain sj where "interrupts (take j irqs) s1 = Returns (sj, [])"
      "receiving obs readBuffer (memory s) 5 (received (take j irqs)) sj"
      by auto
    then show ?thesis by (auto simp: receiving_def)
  qed
  show ?thesis using st s2 part by blast
qed

theorem halfword_transfer_witness:
  "configure cpol0cpha0 80000000 16 False 0 (snd (start (constructed 80000000)))
     = Returns ((0, 40000000), configured16) \<and>
   isStarted configured16 \<and> \<not> isTransferInProgress configured16 \<and>
   getWordLength (ucast (CR2 configured16)) = 16 \<and> (0x20000000 :: addr) \<noteq> nullptr \<and>
   map (\<lambda>irq. fst irq AND SPI_SR_OVR) fiveHalfwords = replicate 10 0 \<and>
   length (received fiveHalfwords) = 5 \<and>
   (\<exists>s1 s2. startTransfer 1 0x20000100 0x20000000 10 configured16 = (0, s1) \<and>
       interrupts fiveHalfwords s1 = Returns (s2, [(1, 10)]) \<and>
       map (memory s2) [0x20000000, 0x20000001, 0x20000002, 0x20000003, 0x20000004,
                        0x20000005, 0x20000006, 0x20000007, 0x20000008, 0x20000009]
         = [0x39, 0x49, 0x6a, 0x37, 0xfa, 0x29, 0x4e, 0x6c, 0x87, 0x7a])"
proof -
  have c: "configure cpol0cpha0 80000000 16 False 0 (snd (start (constructed 80000000)))
     = Returns ((0, 40000000), configured16)"
    by (simp add: configure_def start_def constructed_def configured16_def isStarted_def
        isTransferInProgress_def minWordLength_def maxWordLength_def Let_def of_bool32_def
        SPI_CR1_CPHA_def SPI_CR1_CPOL_def SPI_CR1_MSTR_def SPI_CR1_BR_def SPI_CR1_SPE_def
        SPI_CR1_LSBFIRST_def SPI_CR1_SSI_def SPI_CR1_SSM_def SPI_CR1_CPHA_Pos_def
        SPI_CR1_CPOL_Pos_def SPI_CR1_BR_Pos_def SPI_CR1_LSBFIRST_Pos_def
        SPI_CR2_DS_def SPI_CR2_FRXTH_def SPI_CR2_DS_Pos_def SPI_CR2_FRXTH_Pos_def)
  have h1: "isStarted configured16" by (simp add: configured16_def isStarted_def)
  have h2: "\<not> isTransferInProgress configured16"
    by (simp add: configured16_def isTransferInProgress_def constructed_def)
  have h3: "getWordLength (ucast (CR2 configured16)) = 16"
    by (simp add: configured16_def getWordLength_def SPI_CR2_DS_def SPI_CR2_DS_Pos_def)
  have h4: "(0x20000000 :: addr) \<noteq> nullptr" by (simp add: nullptr_def)
  have h5: "\<forall>irq \<in> set fiveHalfwords. fst irq AND SPI_SR_OVR = 0"
    by (simp add: fiveHalfwords_def SPI_SR_OVR_def SPI_SR_TXE_def SPI_SR_RXNE_def)
  have h5': "map (\<lambda>irq. fst irq AND SPI_SR_OVR) fiveHalfwords = replicate 10 0"
    by (simp add: fiveHalfwords_def SPI_SR_OVR_def SPI_SR_TXE_def SPI_SR_RXNE_def
        numeral_eq_Suc)
  have r: "received fiveHalfwords = [0x4939, 0x376a, 0x29fa, 0x6c4e, 0x7a87]"
    by (simp add: fiveHalfwords_def SPI_SR_TXE_def SPI_SR_RXNE_def)
  have h6: "length (received fiveHalfwords) = 5" unfolding r by simp
  from halfword_transfer [OF h1 h2 h3 h4 h5 h6, of 1 "0x20000100"]
  obtain s1 s2 where a: "startTransfer 1 0x20000100 0x20000000 10 configured16 = (0, s1)"
    and b: "interrupts fiveHalfwords s1 = Returns (s2, [(1, 10)])"
    and m: "memory s2 = storeHalfwords 0x20000000 (received fiveHalfwords) (memory configured16)"
    by blast
  have d: "map (memory s2) [0x20000000, 0x20000001, 0x20000002, 0x20000003, 0x20000004,
                        0x20000005, 0x20000006, 0x20000007, 0x20000008, 0x20000009]
         = [0x39, 0x49, 0x6a, 0x37, 0xfa, 0x29, 0x4e, 0x6c, 0x87, 0x7a]"
    unfolding m r by simp
  have ex: "\<exists>s1 s2. startTransfer 1 0x20000100 0x20000000 10 configured16 = (0, s1) \<and>
       interrupts fiveHalfwords s1 = Returns (s2, [(1, 10)]) \<and>
       map (memory s2) [0x20000000, 0x20000001, 0x20000002, 0x20000003, 0x20000004,
                        0x20000005, 0x20000006, 0x20000007, 0x20000008, 0x20000009]
         = [0x39, 0x49, 0x6a, 0x37, 0xfa, 0x29, 0x4e, 0x6c, 0x87, 0x7a]"
    using a b d by (intro exI conjI)
  from c h1 h2 h3 h4 h5' h6 ex show ?thesis by (intro conjI)
qed

section \<open>Properties of the DMA channel handle and of the DMA-based driver\<close>

subsection \<open>A handle without a channel\<close>

text \<open>
  Claim C10. On a handle that is associated with no channel, \<open>configureTransfer\<close>,
  \<open>startTransfer\<close> and \<open>stopTransfer\<close> return \<open>EBADF\<close>, \<open>getTransactionsLeft\<close> returns
  \<open>(EBADF, 0)\<close> and \<open>release\<close> does nothing. None of them touches a channel: the machine
  (the channels and the trace of the calls) is returned as it was.
\<close>

theorem unassociated_handle:
  assumes "channel_' h = None"
  shows "UniqueHandle_configureTransfer h memoryAddress peripheralAddress transactions fl m = (EBADF, m) \<and>
         UniqueHandle_startTransfer h m = (EBADF, m) \<and>
         UniqueHandle_stopTransfer h m = (EBADF, m) \<and>
         UniqueHandle_getTransactionsLeft h m = ((EBADF, 0), m) \<and>
         UniqueHandle_release h m = (h, m)"
  using assms
  by (simp add: UniqueHandle_configureTransfer_def UniqueHandle_startTransfer_def
      UniqueHandle_stopTransfer_def UniqueHandle_getTransactionsLeft_def UniqueHandle_release_def)

theorem unassociated_handle_witness:
  "channel_' newHandle = None \<and>
   UniqueHandle_configureTransfer newHandle 0x20000000 0x4001300C 5 dataSize2 newMachine = (EBADF, newMachine) \<and>
   UniqueHandle_startTransfer newHandle newMachine = (EBADF, newMachine) \<and>
   UniqueHandle_stopTransfer newHandle newMachine = (EBADF, newMachine) \<and>
   UniqueHandle_getTransactionsLeft newHandle newMachine = ((EBADF, 0), newMachine) \<and>
   UniqueHandle_release newHandle newMachine = (newHandle, newMachine)"
proof -
  have h: "channel_' newHandle = None" by (simp add: newHandle_def)
  show ?thesis
    using h unassociated_handle [OF h, of "0x20000000" "0x4001300C" 5 dataSize2 newMachine]
    by simp
qed

subsection \<open>start: the two reservations\<close>

lemma DmaChannel_reserve_cases:
  "DmaChannel_reserve request functor c =
     (if functor_' c = None \<and> request \<le> 15
      then (0, c\<lparr>functor_' := Some functor, request_' := request\<rparr>)
      else (if functor_' c \<noteq> None then EBUSY else EINVAL, c))"
  by (auto simp: DmaChannel_reserve_def not_less)

lemma DmaChannel_reserve_failed:
  assumes "fst (DmaChannel_reserve request functor c) \<noteq> 0"
  shows "snd (DmaChannel_reserve request functor c) = c"
  using assms by (simp add: DmaChannel_reserve_cases split: if_splits)

lemma DmaChannel_reserve_done:
  assumes "fst (DmaChannel_reserve request functor c) = 0"
  shows "snd (DmaChannel_reserve request functor c) = c\<lparr>functor_' := Some functor, request_' := request\<rparr>"
    and "functor_' c = None"
  using assms by (simp_all add: DmaChannel_reserve_cases EBUSY_def EINVAL_def split: if_splits)

lemma UniqueHandle_reserve_new:
  assumes "channel_' h = None"
  shows "UniqueHandle_reserve h c request functor m =
     (fst (DmaChannel_reserve request functor (channels m c)),
      if fst (DmaChannel_reserve request functor (channels m c)) \<noteq> 0 then h
      else h\<lparr>channel_' := Some c\<rparr>,
      m\<lparr>channels := (channels m)(c := snd (DmaChannel_reserve request functor (channels m c))),
        trace := trace m @ [ChannelReserve c request functor]\<rparr>)"
  using assms
  by (simp add: UniqueHandle_reserve_def UniqueHandle_release_def call_def case_prod_beta Let_def)

lemma UniqueHandle_release_Some:
  assumes "channel_' h = Some c"
  shows "UniqueHandle_release h m =
     (h\<lparr>channel_' := None\<rparr>,
      m\<lparr>channels := (channels m)(c := (channels m c)\<lparr>functor_' := None, request_' := 0\<rparr>),
        trace := trace m @ [ChannelRelease c]\<rparr>)"
  using assms by (simp add: UniqueHandle_release_def DmaChannel_release_def call_def)

lemma handle_reset:
  assumes "channel_' h = None"
  shows "h\<lparr>channel_' := None\<rparr> = h"
  using assms by (cases h) simp

text \<open>
  Claim C8. \<open>start\<close> of a stopped driver reserves the RX channel first. If that fails
  it returns the error and does not try the TX channel. Then it reserves the TX
  channel; if that fails it returns that error, the RX channel is released again (it
  has no functor, and the release is the last call of the trace) and the driver is
  as it was, stopped. If both succeed the driver is started and both handles hold
  their channels.
\<close>

theorem start_reserves_rx_then_tx:
  assumes "\<not> dma_isStarted d"
    and "channel_' (rxDmaChannelUniqueHandle_' d) = None"
    and "channel_' (txDmaChannelUniqueHandle_' d) = None"
  shows
   "\<exists>ret d1 m1. dma_start d m = (ret, d1, m1) \<and>
     (let rx = rxDmaChannel_' d; tx = txDmaChannel_' d;
          rxReserve = ChannelReserve rx (rxDmaRequest_' d) RxDmaChannelFunctor;
          txReserve = ChannelReserve tx (txDmaRequest_' d) TxDmaChannelFunctor;
          rxResult = DmaChannel_reserve (rxDmaRequest_' d) RxDmaChannelFunctor (channels m rx);
          txResult = DmaChannel_reserve (txDmaRequest_' d) TxDmaChannelFunctor
                       (((channels m)(rx := snd rxResult)) tx)
      in if fst rxResult \<noteq> 0
         then ret = fst rxResult \<and> d1 = d \<and> channels m1 = channels m \<and>
              trace m1 = trace m @ [rxReserve]
         else if fst txResult \<noteq> 0
         then ret = fst txResult \<and> d1 = d \<and> \<not> dma_isStarted d1 \<and>
              functor_' (channels m1 rx) = None \<and>
              channels m1 = (channels m)(rx := (channels m rx)\<lparr>request_' := 0\<rparr>) \<and>
              trace m1 = trace m @ [rxReserve, txReserve, ChannelRelease rx]
         else ret = 0 \<and> dma_isStarted d1 \<and> rx \<noteq> tx \<and>
              channel_' (rxDmaChannelUniqueHandle_' d1) = Some rx \<and>
              channel_' (txDmaChannelUniqueHandle_' d1) = Some tx \<and>
              functor_' (channels m1 rx) = Some RxDmaChannelFunctor \<and>
              functor_' (channels m1 tx) = Some TxDmaChannelFunctor \<and>
              take 2 (drop (length (trace m)) (trace m1)) = [rxReserve, txReserve])"
proof -
  define rx where "rx = rxDmaChannel_' d"
  define tx where "tx = txDmaChannel_' d"
  define rxResult where
    "rxResult = DmaChannel_reserve (rxDmaRequest_' d) RxDmaChannelFunctor (channels m rx)"
  define m1 where "m1 = m\<lparr>channels := (channels m)(rx := snd rxResult),
        trace := trace m @ [ChannelReserve rx (rxDmaRequest_' d) RxDmaChannelFunctor]\<rparr>"
  define txResult where
    "txResult = DmaChannel_reserve (txDmaRequest_' d) TxDmaChannelFunctor (channels m1 tx)"
  define m2 where "m2 = m1\<lparr>channels := (channels m1)(tx := snd txResult),
        trace := trace m1 @ [ChannelReserve tx (txDmaRequest_' d) TxDmaChannelFunctor]\<rparr>"
  have r1: "UniqueHandle_reserve (rxDmaChannelUniqueHandle_' d) rx (rxDmaRequest_' d)
             RxDmaChannelFunctor m =
      (fst rxResult,
       if fst rxResult \<noteq> 0 then rxDmaChannelUniqueHandle_' d
       else (rxDmaChannelUniqueHandle_' d)\<lparr>channel_' := Some rx\<rparr>, m1)"
    unfolding UniqueHandle_reserve_new[OF assms(2)] rxResult_def m1_def ..
  have r2: "UniqueHandle_reserve (txDmaChannelUniqueHandle_' d) tx (txDmaRequest_' d)
             TxDmaChannelFunctor m1 =
      (fst txResult,
       if fst txResult \<noteq> 0 then txDmaChannelUniqueHandle_' d
       else (txDmaChannelUniqueHandle_' d)\<lparr>channel_' := Some tx\<rparr>, m2)"
    unfolding UniqueHandle_reserve_new[OF assms(3)] txResult_def m2_def ..
  have tr: "txResult = DmaChannel_reserve (txDmaRequest_' d) TxDmaChannelFunctor
                       (((channels m)(rx := snd rxResult)) tx)"
    unfolding txResult_def m1_def by simp
  consider (rxfail) "fst rxResult \<noteq> 0" | (txfail) "fst rxResult = 0" "fst txResult \<noteq> 0"
    | (ok) "fst rxResult = 0" "fst txResult = 0" by blast
  then show ?thesis
  proof cases
    case rxfail
    then have same: "snd rxResult = channels m rx"
      unfolding rxResult_def by (rule DmaChannel_reserve_failed)
    have "dma_start d m = (fst rxResult, d, m1)"
      using assms(1) rxfail unfolding dma_start_def
      by (simp add: Let_def r1[unfolded rx_def])
    moreover have "channels m1 = channels m" unfolding m1_def using same by simp
    moreover have "trace m1 = trace m @ [ChannelReserve rx (rxDmaRequest_' d) RxDmaChannelFunctor]"
      unfolding m1_def by simp
    ultimately show ?thesis
      using rxfail unfolding Let_def rx_def[symmetric] tx_def[symmetric] rxResult_def[symmetric]
      by simp
  next
    case txfail
    have rxc: "snd rxResult = (channels m rx)\<lparr>functor_' := Some RxDmaChannelFunctor,
                 request_' := rxDmaRequest_' d\<rparr>"
      using txfail(1) unfolding rxResult_def by (rule DmaChannel_reserve_done)
    have same: "snd txResult = channels m1 tx"
      using txfail(2) unfolding txResult_def by (rule DmaChannel_reserve_failed)
    have free: "functor_' (channels m rx) = None"
      using txfail(1) unfolding rxResult_def by (rule DmaChannel_reserve_done)
    define m3 where "m3 = m2\<lparr>channels := (channels m2)(rx := (channels m2 rx)\<lparr>functor_' := None, request_' := 0\<rparr>),
        trace := trace m2 @ [ChannelRelease rx]\<rparr>"
    have rel: "UniqueHandle_release ((rxDmaChannelUniqueHandle_' d)\<lparr>channel_' := Some rx\<rparr>) m2
        = ((rxDmaChannelUniqueHandle_' d)\<lparr>channel_' := None\<rparr>, m3)"
      unfolding m3_def by (simp add: UniqueHandle_release_Some)
    have "dma_start d m = (fst txResult, d, m3)"
      using assms(1) txfail unfolding dma_start_def
      by (simp add: Let_def r1[unfolded rx_def] r2[unfolded tx_def] rel[unfolded rx_def]
          handle_reset[OF assms(2)])
    moreover have "channels m3 = (channels m)(rx := (channels m rx)\<lparr>request_' := 0\<rparr>)"
      unfolding m3_def m2_def same using rxc free
      by (auto simp: m1_def fun_eq_iff)
    moreover have "trace m3 = trace m @ [ChannelReserve rx (rxDmaRequest_' d) RxDmaChannelFunctor,
        ChannelReserve tx (txDmaRequest_' d) TxDmaChannelFunctor, ChannelRelease rx]"
      unfolding m3_def m2_def m1_def by simp
    ultimately show ?thesis
      using txfail assms(1) free
      unfolding Let_def rx_def[symmetric] tx_def[symmetric] rxResult_def[symmetric] tr[symmetric]
      by simp
  next
    case ok
    have rxc: "snd rxResult = (channels m rx)\<lparr>functor_' := Some RxDmaChannelFunctor,
                 request_' := rxDmaRequest_' d\<rparr>"
      using ok(1) unfolding rxResult_def by (rule DmaChannel_reserve_done)
    have txc: "snd txResult = (channels m1 tx)\<lparr>functor_' := Some TxDmaChannelFunctor,
                 request_' := txDmaRequest_' d\<rparr>"
      using ok(2) unfolding txResult_def by (rule DmaChannel_reserve_done)
    have free: "functor_' (channels m1 tx) = None"
      using ok(2) unfolding txResult_def by (rule DmaChannel_reserve_done)
    have ne: "rx \<noteq> tx"
    proof
      assume "rx = tx"
      then have "functor_' (channels m1 tx) = Some RxDmaChannelFunctor"
        unfolding m1_def rxc by simp
      with free show False by simp
    qed
    define d3 where "d3 = d\<lparr>rxDmaChannelUniqueHandle_' := (rxDmaChannelUniqueHandle_' d)\<lparr>channel_' := Some rx\<rparr>,
         txDmaChannelUniqueHandle_' := (txDmaChannelUniqueHandle_' d)\<lparr>channel_' := Some tx\<rparr>,
         wordLength_' := 8, dma_started_' := True\<rparr>"
    define m4 where "m4 = call (WriteCr2 (SPI_CR2_FRXTH
                                           OR push_bit SPI_CR2_DS_Pos (ucast (8 :: 8 word) - 1)
                                           OR SPI_CR2_TXDMAEN OR SPI_CR2_RXDMAEN))
         (call (WriteCr1 (SPI_CR1_SSM OR SPI_CR1_SSI OR SPI_CR1_SPE OR SPI_CR1_BR
                                           OR SPI_CR1_MSTR)) m2)"
    have "dma_start d m = (0, d3, m4)"
      using assms(1) ok unfolding dma_start_def
      by (simp add: Let_def r1[unfolded rx_def] r2[unfolded tx_def] d3_def m4_def rx_def tx_def)
    moreover have "functor_' (channels m4 rx) = Some RxDmaChannelFunctor"
      unfolding m4_def call_def m2_def m1_def rxc using ne by simp
    moreover have "functor_' (channels m4 tx) = Some TxDmaChannelFunctor"
      unfolding m4_def call_def m2_def txc by simp
    moreover have "take 2 (drop (length (trace m)) (trace m4)) =
       [ChannelReserve rx (rxDmaRequest_' d) RxDmaChannelFunctor,
        ChannelReserve tx (txDmaRequest_' d) TxDmaChannelFunctor]"
      unfolding m4_def call_def m2_def m1_def by simp
    ultimately show ?thesis
      using ok ne
      unfolding Let_def rx_def[symmetric] tx_def[symmetric] rxResult_def[symmetric] tr[symmetric]
      by (simp add: d3_def dma_isStarted_def)
  qed
qed

theorem start_reserves_rx_then_tx_witness:
  "\<not> dma_isStarted (dma_constructed 2 1 3 1) \<and>
   channel_' (rxDmaChannelUniqueHandle_' (dma_constructed 2 1 3 1)) = None \<and>
   channel_' (txDmaChannelUniqueHandle_' (dma_constructed 2 1 3 1)) = None \<and>
   (\<exists>d1 m1. dma_start (dma_constructed 2 1 3 1) txTakenMachine = (EBUSY, d1, m1) \<and>
       d1 = dma_constructed 2 1 3 1 \<and> functor_' (channels m1 2) = None \<and>
       trace m1 = [ChannelReserve 2 1 RxDmaChannelFunctor, ChannelReserve 3 1 TxDmaChannelFunctor,
                   ChannelRelease 2])"
proof -
  let ?d = "dma_constructed 2 1 3 1"
  have h1: "\<not> dma_isStarted ?d" by (simp add: dma_isStarted_def dma_constructed_def)
  have h2: "channel_' (rxDmaChannelUniqueHandle_' ?d) = None"
    by (simp add: dma_constructed_def newHandle_def)
  have h3: "channel_' (txDmaChannelUniqueHandle_' ?d) = None"
    by (simp add: dma_constructed_def newHandle_def)
  have f: "rxDmaChannel_' ?d = 2" "txDmaChannel_' ?d = 3" "rxDmaRequest_' ?d = 1"
    "txDmaRequest_' ?d = 1"
    by (simp_all add: dma_constructed_def)
  have rx: "DmaChannel_reserve 1 RxDmaChannelFunctor (channels txTakenMachine 2)
      = (0, newChannel\<lparr>functor_' := Some RxDmaChannelFunctor, request_' := 1\<rparr>)"
    by (simp add: DmaChannel_reserve_def txTakenMachine_def newMachine_def newChannel_def)
  have tx: "fst (DmaChannel_reserve 1 TxDmaChannelFunctor (channels txTakenMachine 3)) = EBUSY"
    by (simp add: DmaChannel_reserve_def txTakenMachine_def newMachine_def newChannel_def)
  have t: "trace txTakenMachine = []" by (simp add: txTakenMachine_def newMachine_def)
  from start_reserves_rx_then_tx [OF h1 h2 h3, of txTakenMachine]
  have "\<exists>d1 m1. dma_start ?d txTakenMachine = (EBUSY, d1, m1) \<and>
       d1 = ?d \<and> functor_' (channels m1 2) = None \<and>
       trace m1 = [ChannelReserve 2 1 RxDmaChannelFunctor, ChannelReserve 3 1 TxDmaChannelFunctor,
                   ChannelRelease 2]"
    by (simp add: Let_def f rx tx t EBUSY_def) blast
  with h1 h2 h3 show ?thesis by (intro conjI)
qed

subsection \<open>The completion of a transfer\<close>

lemma UniqueHandle_stopTransfer_Some:
  assumes "channel_' h = Some c"
  shows "UniqueHandle_stopTransfer h m =
     (0, m\<lparr>channels := (channels m)(c := (channels m c)\<lparr>enabled := False\<rparr>),
            trace := trace m @ [ChannelStopTransfer c]\<rparr>)"
  using assms by (simp add: UniqueHandle_stopTransfer_def DmaChannel_stopTransfer_def call_def)

lemma dma_emptyCallback_Returns [simp]:
  "dma_emptyCallback observer bytesTransfered d m = Returns (d, m)"
  by (simp add: dma_emptyCallback_def)

lemma eventHandler_started:
  assumes "channel_' (txDmaChannelUniqueHandle_' d) = Some tx"
    and "channel_' (rxDmaChannelUniqueHandle_' d) = Some rx"
    and "dma_spiMasterBase_' d = Some obs"
  shows "eventHandler transferCompleteEvent transactionsLeft d m =
     transferCompleteEvent obs
       (dma_size_' d - transactionsLeft * of_nat ((unat (wordLength_' d) + 8 - 1) div 8))
       (d\<lparr>dma_size_' := 0, dma_spiMasterBase_' := None\<rparr>)
       (m\<lparr>channels := ((channels m)(tx := (channels m tx)\<lparr>enabled := False\<rparr>))
                        (rx := (((channels m)(tx := (channels m tx)\<lparr>enabled := False\<rparr>)) rx)
                                 \<lparr>enabled := False\<rparr>),
          trace := trace m @ [ChannelStopTransfer tx, ChannelStopTransfer rx, SetSize 0,
                     SetSpiMasterBase None,
                     TransferCompleteEvent obs
                       (dma_size_' d - transactionsLeft
                          * of_nat ((unat (wordLength_' d) + 8 - 1) div 8))]\<rparr>)"
  unfolding eventHandler_def UniqueHandle_stopTransfer_Some[OF assms(1)]
  by (simp add: UniqueHandle_stopTransfer_Some[OF assms(2)] assms(3) call_def Let_def)

lemma bytes_left:
  fixes sz left :: "32 word" and wl :: "8 word"
  assumes "unat left * ((unat wl + 8 - 1) div 8) \<le> unat sz"
  shows "unat (sz - left * of_nat ((unat wl + 8 - 1) div 8))
           = unat sz - unat left * ((unat wl + 8 - 1) div 8)"
proof -
  define ds where "ds = (unat wl + 8 - 1) div 8"
  have "unat wl < 2 ^ 8" using unsigned_less[of wl] by simp
  then have "ds \<le> 32" unfolding ds_def by simp
  then have d: "unat (of_nat ds :: 32 word) = ds" by (simp add: unat_of_nat)
  have szb: "unat sz < 2 ^ 32" using unsigned_less[of sz] by simp
  have "unat left * ds < 2 ^ 32" using assms szb unfolding ds_def by simp
  then have m: "unat (left * of_nat ds) = unat left * ds"
    using d by (simp add: unat_word_ariths)
  have "left * of_nat ds \<le> sz" using assms m unfolding ds_def[symmetric] by (simp add: word_le_nat_alt)
  then have "unat (sz - left * of_nat ds) = unat sz - unat (left * of_nat ds)" by (rule unat_sub)
  then show ?thesis using m unfolding ds_def by simp
qed

subsection \<open>startTransfer of the DMA-based driver\<close>

lemmas DmaChannelFlags_defs =
  transferCompleteInterruptDisable_def transferCompleteInterruptEnable_def peripheralToMemory_def
  memoryToPeripheral_def peripheralFixed_def memoryFixed_def memoryIncrement_def
  peripheralDataSize1_def peripheralDataSize2_def peripheralDataSize4_def memoryDataSize1_def
  memoryDataSize2_def memoryDataSize4_def lowPriority_def veryHighPriority_def
  peripheralBurstSize16_def memoryBurstSize16_def dataSize1_def dataSize2_def

lemma rx_flags_alignment:
  "memoryAlignment ((peripheralFixed OR (if one then dataSize1 else dataSize2)) OR
      (transferCompleteInterruptEnable OR peripheralToMemory
         OR (if inc then memoryIncrement else memoryFixed) OR veryHighPriority))
     = (if one then 1 else 2)"
  "peripheralAlignment ((peripheralFixed OR (if one then dataSize1 else dataSize2)) OR
      (transferCompleteInterruptEnable OR peripheralToMemory
         OR (if inc then memoryIncrement else memoryFixed) OR veryHighPriority))
     = (if one then 1 else 2)"
  by (cases one; cases inc;
      simp add: memoryAlignment_def peripheralAlignment_def dataSizeOf_def burstSizeOf_def
        DmaChannelFlags_defs)+

lemma tx_flags_alignment:
  "memoryAlignment ((peripheralFixed OR (if one then dataSize1 else dataSize2)) OR
      (transferCompleteInterruptDisable OR memoryToPeripheral
         OR (if inc then memoryIncrement else 0) OR lowPriority))
     = (if one then 1 else 2)"
  "peripheralAlignment ((peripheralFixed OR (if one then dataSize1 else dataSize2)) OR
      (transferCompleteInterruptDisable OR memoryToPeripheral
         OR (if inc then memoryIncrement else 0) OR lowPriority))
     = (if one then 1 else 2)"
  by (cases one; cases inc;
      simp add: memoryAlignment_def peripheralAlignment_def dataSizeOf_def burstSizeOf_def
        DmaChannelFlags_defs)+

lemma dma_dataSize_range:
  assumes "minWordLength \<le> wordLength_' d" "wordLength_' d \<le> maxWordLength"
  shows "dma_dataSize d = 1 \<or> dma_dataSize d = 2"
proof -
  have "4 \<le> unat (wordLength_' d)" "unat (wordLength_' d) \<le> 16"
    using assms by (simp_all add: word_le_nat_alt minWordLength_def maxWordLength_def)
  then show ?thesis unfolding dma_dataSize_def by (simp; arith)
qed

lemma UniqueHandle_configureTransfer_Some:
  assumes "channel_' h = Some c"
  shows "UniqueHandle_configureTransfer h a p n fl m =
     (fst (DmaChannel_configureTransfer a p n fl (channels m c)),
      m\<lparr>channels := (channels m)(c := snd (DmaChannel_configureTransfer a p n fl (channels m c))),
        trace := trace m @ [ChannelConfigureTransfer c a p n fl]\<rparr>)"
  using assms by (simp add: UniqueHandle_configureTransfer_def call_def case_prod_beta)

lemma UniqueHandle_startTransfer_Some:
  assumes "channel_' h = Some c"
  shows "UniqueHandle_startTransfer h m =
     (fst (DmaChannel_startTransfer (channels m c)),
      m\<lparr>channels := (channels m)(c := snd (DmaChannel_startTransfer (channels m c))),
        trace := trace m @ [ChannelStartTransfer c]\<rparr>)"
  using assms by (simp add: UniqueHandle_startTransfer_def call_def case_prod_beta)

lemma DmaChannel_configureTransfer_cases:
  assumes "\<not> enabled c"
  shows "DmaChannel_configureTransfer a p n fl c =
     (if \<not> aligned (memoryAlignment fl) a \<or> \<not> aligned (peripheralAlignment fl) p \<or> n = 0
      then (EINVAL, c)
      else if 65535 < unat n then (ENOTSUP, c)
      else (0, c\<lparr>NDTR := n, M0AR := a, PAR := p, flags := fl\<rparr>))"
proof -
  have "unat (65535 :: 32 word) = 65535" by simp
  then have "n > 65535 \<longleftrightarrow> 65535 < unat n" by (simp add: word_less_nat_alt)
  then show ?thesis using assms by (simp add: DmaChannel_configureTransfer_def aligned_def)
qed

lemma dma_mod_dataSize_iff:
  fixes sz :: "32 word"
  assumes "ds = 1 \<or> ds = 2"
  shows "sz mod of_nat ds = 0 \<longleftrightarrow> ds dvd unat sz"
    and "unat (sz div of_nat ds) = unat sz div ds"
proof -
  have d: "unat (of_nat ds :: 32 word) = ds" using assms by (auto simp: unat_of_nat)
  have "sz mod of_nat ds = 0 \<longleftrightarrow> unat (sz mod of_nat ds) = 0" by (simp only: unat_eq_0)
  also have "\<dots> \<longleftrightarrow> unat sz mod ds = 0" by (simp only: unat_mod d)
  also have "\<dots> \<longleftrightarrow> ds dvd unat sz" by (simp only: dvd_eq_mod_eq_0)
  finally show "sz mod of_nat ds = 0 \<longleftrightarrow> ds dvd unat sz" .
  show "unat (sz div of_nat ds) = unat sz div ds" by (simp only: unat_div d)
qed

lemma dma_startTransfer_invalid_size:
  assumes r: "dma_ready d m" and bad: "sz = 0 \<or> \<not> dma_dataSize d dvd unat sz"
  shows "dma_startTransfer obs writeBuffer readBuffer sz d m = Returns (EINVAL, d, m)"
proof (cases "sz = 0")
  case True
  then show ?thesis by (simp add: dma_startTransfer_def)
next
  case False
  from r have st: "dma_isStarted d" "\<not> dma_isTransferInProgress d"
    and wl: "minWordLength \<le> wordLength_' d" "wordLength_' d \<le> maxWordLength"
    by (simp_all add: dma_ready_def)
  have ds: "dma_dataSize d = 1 \<or> dma_dataSize d = 2" using wl by (rule dma_dataSize_range)
  then have nz: "dma_dataSize d \<noteq> 0" by auto
  have "\<not> dma_dataSize d dvd unat sz" using bad False by simp
  then have "sz mod of_nat (dma_dataSize d) \<noteq> 0" using dma_mod_dataSize_iff(1)[OF ds] by simp
  then show ?thesis
    using False st nz unfolding dma_startTransfer_def dma_dataSize_def[symmetric]
    by (simp add: Let_def)
qed

lemma dma_startTransfer_rx_configure:
  assumes r: "dma_ready d m" and sz: "sz \<noteq> 0" "dma_dataSize d dvd unat sz"
  shows "dma_startTransfer obs writeBuffer readBuffer sz d m =
    (let dataSize = dma_dataSize d;
         transactions = sz div of_nat dataSize;
         commonDmaFlags = peripheralFixed OR (if dataSize = 1 then dataSize1 else dataSize2);
         rxMemoryAddress = (if readBuffer \<noteq> nullptr then readBuffer else rxDummyData_address d);
         rxDmaFlags = transferCompleteInterruptEnable OR peripheralToMemory
                          OR (if readBuffer \<noteq> nullptr then memoryIncrement else memoryFixed)
                          OR veryHighPriority;
         (ret, m1) = UniqueHandle_configureTransfer (rxDmaChannelUniqueHandle_' d)
                           rxMemoryAddress (drAddress d) transactions
                           (commonDmaFlags OR rxDmaFlags) m
     in if ret \<noteq> 0 then Returns (ret, d, m1)
            else
              let txMemoryAddress = (if writeBuffer \<noteq> nullptr then writeBuffer
                                     else txDummyData_address d);
                  txDmaFlags = transferCompleteInterruptDisable OR memoryToPeripheral
                               OR (if writeBuffer \<noteq> nullptr then memoryIncrement else 0)
                               OR lowPriority;
                  (ret, m2) = UniqueHandle_configureTransfer (txDmaChannelUniqueHandle_' d)
                                txMemoryAddress (drAddress d) transactions
                                (commonDmaFlags OR txDmaFlags) m1
              in if ret \<noteq> 0 then Returns (ret, d, m2)
                 else
                   let d1 = d\<lparr>dma_spiMasterBase_' := Some obs, dma_size_' := sz\<rparr>;
                       (ret, m3) = UniqueHandle_startTransfer (rxDmaChannelUniqueHandle_' d1) m2
                   in if ret \<noteq> 0 then Fault AssertionFailure
                      else
                        let (ret, m4) = UniqueHandle_startTransfer (txDmaChannelUniqueHandle_' d1) m3
                        in if ret \<noteq> 0 then Fault AssertionFailure
                           else Returns (0, d1, m4))"
proof -
  from r have st: "dma_isStarted d" "\<not> dma_isTransferInProgress d"
    and wl: "minWordLength \<le> wordLength_' d" "wordLength_' d \<le> maxWordLength"
    by (simp_all add: dma_ready_def)
  have ds: "dma_dataSize d = 1 \<or> dma_dataSize d = 2" using wl by (rule dma_dataSize_range)
  then have nz: "dma_dataSize d \<noteq> 0" by auto
  have md: "sz mod of_nat (dma_dataSize d) = 0" using dma_mod_dataSize_iff(1)[OF ds] sz(2) by simp
  show ?thesis
    unfolding dma_startTransfer_def dma_dataSize_def[symmetric]
    using sz(1) st nz md by (simp add: Let_def)
qed

lemma dma_startTransfer_too_long:
  assumes r: "dma_ready d m" and ok: "dma_request_ok writeBuffer readBuffer sz d"
    and big: "65535 < unat sz div dma_dataSize d"
  shows "\<exists>m1. dma_startTransfer obs writeBuffer readBuffer sz d m = Returns (ENOTSUP, d, m1) \<and>
               channels m1 = channels m"
proof -
  define rx where "rx = rxDmaChannel_' d"
  from r have hr: "channel_' (rxDmaChannelUniqueHandle_' d) = Some rx"
    and en: "\<not> enabled (channels m rx)"
    and wl: "minWordLength \<le> wordLength_' d" "wordLength_' d \<le> maxWordLength"
    by (simp_all add: dma_ready_def rx_def)
  from ok have sz: "sz \<noteq> 0" "dma_dataSize d dvd unat sz"
    and al: "aligned (dma_dataSize d) (if readBuffer \<noteq> nullptr then readBuffer else rxDummyData_address d)"
      "aligned (dma_dataSize d) (drAddress d)"
    by (simp_all add: dma_request_ok_def)
  have ds: "dma_dataSize d = 1 \<or> dma_dataSize d = 2" using wl by (rule dma_dataSize_range)
  have e: "(if dma_dataSize d = 1 then 1 else 2) = dma_dataSize d" using ds by auto
  have n: "unat (sz div of_nat (dma_dataSize d)) = unat sz div dma_dataSize d"
    by (rule dma_mod_dataSize_iff(2)[OF ds])
  have n0: "sz div of_nat (dma_dataSize d) \<noteq> 0"
    using big n by (auto simp: unat_eq_0[symmetric] simp del: unat_eq_0)
  have nerr: "ENOTSUP \<noteq> 0" by (simp add: ENOTSUP_def)
  show ?thesis
    unfolding dma_startTransfer_rx_configure[OF r sz] Let_def
      UniqueHandle_configureTransfer_Some[OF hr]
      DmaChannel_configureTransfer_cases[OF en] rx_flags_alignment e
    using al n0 big n nerr by (simp add: fun_upd_idem)
qed

lemma dma_startTransfer_ok:
  assumes r: "dma_ready d m" and ok: "dma_request_ok writeBuffer readBuffer sz d"
    and small: "unat sz div dma_dataSize d \<le> 65535"
  shows "\<exists>m1. dma_startTransfer obs writeBuffer readBuffer sz d m =
             Returns (0, d\<lparr>dma_spiMasterBase_' := Some obs, dma_size_' := sz\<rparr>, m1) \<and>
           unat (NDTR (channels m1 (rxDmaChannel_' d))) = unat sz div dma_dataSize d \<and>
           unat (NDTR (channels m1 (txDmaChannel_' d))) = unat sz div dma_dataSize d \<and>
           functor_' (channels m1 (rxDmaChannel_' d)) = Some RxDmaChannelFunctor \<and>
           functor_' (channels m1 (txDmaChannel_' d)) = Some TxDmaChannelFunctor \<and>
           enabled (channels m1 (rxDmaChannel_' d)) \<and> enabled (channels m1 (txDmaChannel_' d)) \<and>
           length (trace m1) = length (trace m) + 4 \<and>
           take (length (trace m)) (trace m1) = trace m \<and>
           (\<forall>obs n. TransferCompleteEvent obs n \<notin> set (drop (length (trace m)) (trace m1)))"
proof -
  define rx where "rx = rxDmaChannel_' d"
  define tx where "tx = txDmaChannel_' d"
  define n where "n = sz div of_nat (dma_dataSize d)"
  from r have hr: "channel_' (rxDmaChannelUniqueHandle_' d) = Some rx"
    and ht: "channel_' (txDmaChannelUniqueHandle_' d) = Some tx"
    and ne: "rx \<noteq> tx"
    and fr: "functor_' (channels m rx) = Some RxDmaChannelFunctor"
    and ft: "functor_' (channels m tx) = Some TxDmaChannelFunctor"
    and er: "\<not> enabled (channels m rx)" and et: "\<not> enabled (channels m tx)"
    and wl: "minWordLength \<le> wordLength_' d" "wordLength_' d \<le> maxWordLength"
    by (simp_all add: dma_ready_def rx_def tx_def)
  from ok have sz: "sz \<noteq> 0" "dma_dataSize d dvd unat sz"
    and al: "aligned (dma_dataSize d) (if readBuffer \<noteq> nullptr then readBuffer else rxDummyData_address d)"
      "aligned (dma_dataSize d) (if writeBuffer \<noteq> nullptr then writeBuffer else txDummyData_address d)"
      "aligned (dma_dataSize d) (drAddress d)"
    by (simp_all add: dma_request_ok_def)
  have ds: "dma_dataSize d = 1 \<or> dma_dataSize d = 2" using wl by (rule dma_dataSize_range)
  have e: "(if dma_dataSize d = 1 then 1 else 2) = dma_dataSize d" using ds by auto
  have un: "unat n = unat sz div dma_dataSize d"
    unfolding n_def by (rule dma_mod_dataSize_iff(2)[OF ds])
  have "0 < unat sz" using sz(1) by (simp add: unat_gt_0)
  then have "dma_dataSize d \<le> unat sz" using sz(2) by (simp add: dvd_imp_le)
  then have "0 < unat sz div dma_dataSize d" using ds by (auto simp: div_greater_zero_iff)
  then have n0: "n \<noteq> 0" using un by (auto simp: unat_eq_0[symmetric] simp del: unat_eq_0)
  have nb: "\<not> 65535 < unat n" using small un by simp
  define rxA where "rxA = (if readBuffer \<noteq> nullptr then readBuffer else rxDummyData_address d)"
  define txA where "txA = (if writeBuffer \<noteq> nullptr then writeBuffer else txDummyData_address d)"
  define rxF where "rxF = (peripheralFixed OR (if dma_dataSize d = 1 then dataSize1 else dataSize2)) OR
      (transferCompleteInterruptEnable OR peripheralToMemory
         OR (if readBuffer \<noteq> nullptr then memoryIncrement else memoryFixed) OR veryHighPriority)"
  define txF where "txF = (peripheralFixed OR (if dma_dataSize d = 1 then dataSize1 else dataSize2)) OR
      (transferCompleteInterruptDisable OR memoryToPeripheral
         OR (if writeBuffer \<noteq> nullptr then memoryIncrement else 0) OR lowPriority)"
  have ar: "memoryAlignment rxF = dma_dataSize d" "peripheralAlignment rxF = dma_dataSize d"
    unfolding rxF_def rx_flags_alignment e by simp_all
  have at: "memoryAlignment txF = dma_dataSize d" "peripheralAlignment txF = dma_dataSize d"
    unfolding txF_def tx_flags_alignment e by simp_all
  define m1 where "m1 = m\<lparr>channels := (channels m)(rx := (channels m rx)\<lparr>NDTR := n, M0AR := rxA,
                                 PAR := drAddress d, flags := rxF\<rparr>),
        trace := trace m @ [ChannelConfigureTransfer rx rxA (drAddress d) n rxF]\<rparr>"
  have c1: "UniqueHandle_configureTransfer (rxDmaChannelUniqueHandle_' d) rxA (drAddress d) n rxF m
       = (0, m1)"
    unfolding UniqueHandle_configureTransfer_Some[OF hr] DmaChannel_configureTransfer_cases[OF er] ar
    using al(1,3) n0 nb by (simp add: m1_def rxA_def)
  have et1: "\<not> enabled (channels m1 tx)" using et ne by (simp add: m1_def)
  define m2 where "m2 = m1\<lparr>channels := (channels m1)(tx := (channels m1 tx)\<lparr>NDTR := n, M0AR := txA,
                                 PAR := drAddress d, flags := txF\<rparr>),
        trace := trace m1 @ [ChannelConfigureTransfer tx txA (drAddress d) n txF]\<rparr>"
  have c2: "UniqueHandle_configureTransfer (txDmaChannelUniqueHandle_' d) txA (drAddress d) n txF m1
       = (0, m2)"
    unfolding UniqueHandle_configureTransfer_Some[OF ht] DmaChannel_configureTransfer_cases[OF et1] at
    using al(2,3) n0 nb by (simp add: m2_def txA_def)
  have er2: "\<not> enabled (channels m2 rx)" using er ne by (simp add: m2_def m1_def)
  define m3 where "m3 = m2\<lparr>channels := (channels m2)(rx := (channels m2 rx)\<lparr>enabled := True\<rparr>),
        trace := trace m2 @ [ChannelStartTransfer rx]\<rparr>"
  have s1: "UniqueHandle_startTransfer (rxDmaChannelUniqueHandle_' d) m2 = (0, m3)"
    unfolding UniqueHandle_startTransfer_Some[OF hr] using er2
    by (simp add: DmaChannel_startTransfer_def m3_def)
  have et3: "\<not> enabled (channels m3 tx)" using et ne by (simp add: m3_def m2_def m1_def)
  define m4 where "m4 = m3\<lparr>channels := (channels m3)(tx := (channels m3 tx)\<lparr>enabled := True\<rparr>),
        trace := trace m3 @ [ChannelStartTransfer tx]\<rparr>"
  have s2: "UniqueHandle_startTransfer (txDmaChannelUniqueHandle_' d) m3 = (0, m4)"
    unfolding UniqueHandle_startTransfer_Some[OF ht] using et3
    by (simp add: DmaChannel_startTransfer_def m4_def)
  have res: "dma_startTransfer obs writeBuffer readBuffer sz d m =
             Returns (0, d\<lparr>dma_spiMasterBase_' := Some obs, dma_size_' := sz\<rparr>, m4)"
    unfolding dma_startTransfer_rx_configure[OF r sz] Let_def
      n_def[symmetric] rxA_def[symmetric] txA_def[symmetric] rxF_def[symmetric] txF_def[symmetric]
    by (simp add: c1 c2 s1 s2)
  have tr: "trace m4 = trace m @ [ChannelConfigureTransfer rx rxA (drAddress d) n rxF,
       ChannelConfigureTransfer tx txA (drAddress d) n txF, ChannelStartTransfer rx,
       ChannelStartTransfer tx]"
    by (simp add: m4_def m3_def m2_def m1_def)
  have chr: "channels m4 rx = (channels m rx)\<lparr>NDTR := n, M0AR := rxA,
                                 PAR := drAddress d, flags := rxF, enabled := True\<rparr>"
    using ne by (simp add: m4_def m3_def m2_def m1_def)
  have cht: "channels m4 tx = (channels m tx)\<lparr>NDTR := n, M0AR := txA,
                                 PAR := drAddress d, flags := txF, enabled := True\<rparr>"
    using ne by (simp add: m4_def m3_def m2_def m1_def)
  show ?thesis
    unfolding rx_def[symmetric] tx_def[symmetric]
    by (rule exI[of _ m4]) (simp add: res tr chr cht un fr ft)
qed

lemma transferCompleteEvents_append:
  "transferCompleteEvents (xs @ ys) = transferCompleteEvents xs @ transferCompleteEvents ys"
  by (induction xs rule: transferCompleteEvents.induct) simp_all

lemma dma_startTransfer_rx_fails:
  assumes r: "dma_ready d m" and sz: "sz \<noteq> 0" "dma_dataSize d dvd unat sz"
    and bad: "\<not> (aligned (dma_dataSize d) (if readBuffer \<noteq> nullptr then readBuffer else rxDummyData_address d)
               \<and> aligned (dma_dataSize d) (drAddress d) \<and> unat sz div dma_dataSize d \<le> 65535)"
  shows "\<exists>e m1. dma_startTransfer obs writeBuffer readBuffer sz d m = Returns (e, d, m1) \<and> e \<noteq> 0"
proof -
  define rx where "rx = rxDmaChannel_' d"
  from r have hr: "channel_' (rxDmaChannelUniqueHandle_' d) = Some rx"
    and en: "\<not> enabled (channels m rx)"
    and wl: "minWordLength \<le> wordLength_' d" "wordLength_' d \<le> maxWordLength"
    by (simp_all add: dma_ready_def rx_def)
  have ds: "dma_dataSize d = 1 \<or> dma_dataSize d = 2" using wl by (rule dma_dataSize_range)
  have e: "(if dma_dataSize d = 1 then 1 else 2) = dma_dataSize d" using ds by auto
  have n: "unat (sz div of_nat (dma_dataSize d)) = unat sz div dma_dataSize d"
    by (rule dma_mod_dataSize_iff(2)[OF ds])
  have nerr: "ENOTSUP \<noteq> 0" "EINVAL \<noteq> 0" by (simp_all add: ENOTSUP_def EINVAL_def)
  show ?thesis
    unfolding dma_startTransfer_rx_configure[OF r sz] Let_def
      UniqueHandle_configureTransfer_Some[OF hr]
      DmaChannel_configureTransfer_cases[OF en] rx_flags_alignment e n
    using bad nerr by (auto simp: not_le)
qed

lemma dma_startTransfer_tx_fails:
  assumes r: "dma_ready d m" and sz: "sz \<noteq> 0" "dma_dataSize d dvd unat sz"
    and good: "aligned (dma_dataSize d) (if readBuffer \<noteq> nullptr then readBuffer else rxDummyData_address d)"
       "aligned (dma_dataSize d) (drAddress d)" "unat sz div dma_dataSize d \<le> 65535"
    and bad: "\<not> aligned (dma_dataSize d) (if writeBuffer \<noteq> nullptr then writeBuffer else txDummyData_address d)"
  shows "\<exists>e m1. dma_startTransfer obs writeBuffer readBuffer sz d m = Returns (e, d, m1) \<and> e \<noteq> 0"
proof -
  define rx where "rx = rxDmaChannel_' d"
  define tx where "tx = txDmaChannel_' d"
  define n where "n = sz div of_nat (dma_dataSize d)"
  from r have hr: "channel_' (rxDmaChannelUniqueHandle_' d) = Some rx"
    and ht: "channel_' (txDmaChannelUniqueHandle_' d) = Some tx"
    and ne: "rx \<noteq> tx"
    and er: "\<not> enabled (channels m rx)" and et: "\<not> enabled (channels m tx)"
    and wl: "minWordLength \<le> wordLength_' d" "wordLength_' d \<le> maxWordLength"
    by (simp_all add: dma_ready_def rx_def tx_def)
  have ds: "dma_dataSize d = 1 \<or> dma_dataSize d = 2" using wl by (rule dma_dataSize_range)
  have e: "(if dma_dataSize d = 1 then 1 else 2) = dma_dataSize d" using ds by auto
  have un: "unat n = unat sz div dma_dataSize d"
    unfolding n_def by (rule dma_mod_dataSize_iff(2)[OF ds])
  have "0 < unat sz" using sz(1) by (simp add: unat_gt_0)
  then have "dma_dataSize d \<le> unat sz" using sz(2) by (simp add: dvd_imp_le)
  then have "0 < unat sz div dma_dataSize d" using ds by (auto simp: div_greater_zero_iff)
  then have n0: "n \<noteq> 0" using un by (auto simp: unat_eq_0[symmetric] simp del: unat_eq_0)
  have nb: "\<not> 65535 < unat n" using good(3) un by simp
  define rxA where "rxA = (if readBuffer \<noteq> nullptr then readBuffer else rxDummyData_address d)"
  define txA where "txA = (if writeBuffer \<noteq> nullptr then writeBuffer else txDummyData_address d)"
  define rxF where "rxF = (peripheralFixed OR (if dma_dataSize d = 1 then dataSize1 else dataSize2)) OR
      (transferCompleteInterruptEnable OR peripheralToMemory
         OR (if readBuffer \<noteq> nullptr then memoryIncrement else memoryFixed) OR veryHighPriority)"
  define txF where "txF = (peripheralFixed OR (if dma_dataSize d = 1 then dataSize1 else dataSize2)) OR
      (transferCompleteInterruptDisable OR memoryToPeripheral
         OR (if writeBuffer \<noteq> nullptr then memoryIncrement else 0) OR lowPriority)"
  have ar: "memoryAlignment rxF = dma_dataSize d" "peripheralAlignment rxF = dma_dataSize d"
    unfolding rxF_def rx_flags_alignment e by simp_all
  have at: "memoryAlignment txF = dma_dataSize d" "peripheralAlignment txF = dma_dataSize d"
    unfolding txF_def tx_flags_alignment e by simp_all
  define m1 where "m1 = m\<lparr>channels := (channels m)(rx := (channels m rx)\<lparr>NDTR := n, M0AR := rxA,
                                 PAR := drAddress d, flags := rxF\<rparr>),
        trace := trace m @ [ChannelConfigureTransfer rx rxA (drAddress d) n rxF]\<rparr>"
  have c1: "UniqueHandle_configureTransfer (rxDmaChannelUniqueHandle_' d) rxA (drAddress d) n rxF m
       = (0, m1)"
    unfolding UniqueHandle_configureTransfer_Some[OF hr] DmaChannel_configureTransfer_cases[OF er] ar
    using good(1,2) n0 nb by (simp add: m1_def rxA_def)
  have et1: "\<not> enabled (channels m1 tx)" using et ne by (simp add: m1_def)
  have c2: "fst (UniqueHandle_configureTransfer (txDmaChannelUniqueHandle_' d) txA (drAddress d) n txF m1)
       = EINVAL"
    unfolding UniqueHandle_configureTransfer_Some[OF ht] DmaChannel_configureTransfer_cases[OF et1] at
    using bad by (simp add: txA_def)
  have nerr: "EINVAL \<noteq> 0" by (simp add: EINVAL_def)
  show ?thesis
    unfolding dma_startTransfer_rx_configure[OF r sz] Let_def
      n_def[symmetric] rxA_def[symmetric] txA_def[symmetric] rxF_def[symmetric] txF_def[symmetric]
    using nerr by (simp add: c1 c2 case_prod_beta)
qed

lemma dma_startTransfer_success:
  assumes r: "dma_ready d m"
    and s: "dma_startTransfer obs writeBuffer readBuffer sz d m = Returns (0, d1, m1)"
  shows "dma_request_ok writeBuffer readBuffer sz d \<and> unat sz div dma_dataSize d \<le> 65535"
proof -
  have nerr: "EINVAL \<noteq> 0" by (simp add: EINVAL_def)
  have sz: "sz \<noteq> 0" "dma_dataSize d dvd unat sz"
    using dma_startTransfer_invalid_size[OF r, of sz obs writeBuffer readBuffer] s nerr by auto
  have rxok: "aligned (dma_dataSize d) (if readBuffer \<noteq> nullptr then readBuffer else rxDummyData_address d)
               \<and> aligned (dma_dataSize d) (drAddress d) \<and> unat sz div dma_dataSize d \<le> 65535"
  proof (rule ccontr)
    assume "\<not> ?thesis"
    from dma_startTransfer_rx_fails[OF r sz this, of obs writeBuffer] obtain e m2 where
      "dma_startTransfer obs writeBuffer readBuffer sz d m = Returns (e, d, m2)" "e \<noteq> 0" by blast
    with s show False by simp
  qed
  have txok: "aligned (dma_dataSize d) (if writeBuffer \<noteq> nullptr then writeBuffer else txDummyData_address d)"
  proof (rule ccontr)
    assume a: "\<not> ?thesis"
    from rxok have g: "aligned (dma_dataSize d) (if readBuffer \<noteq> nullptr then readBuffer else rxDummyData_address d)"
      "aligned (dma_dataSize d) (drAddress d)" "unat sz div dma_dataSize d \<le> 65535" by simp_all
    from dma_startTransfer_tx_fails[OF r sz g a, of obs] obtain e m2 where
      "dma_startTransfer obs writeBuffer readBuffer sz d m = Returns (e, d, m2)" "e \<noteq> 0" by blast
    with s show False by simp
  qed
  show ?thesis using sz rxok txok by (simp add: dma_request_ok_def)
qed

lemma dma_startTransfer_busy:
  assumes r: "dma_ready d m"
    and s: "dma_startTransfer obs writeBuffer readBuffer sz d m = Returns (0, d1, m1)"
  shows "dma_busy obs sz d1 m1 \<and> transferCompleteEvents (trace m1) = transferCompleteEvents (trace m)"
proof -
  from dma_startTransfer_success[OF r s]
  have ok: "dma_request_ok writeBuffer readBuffer sz d" and small: "unat sz div dma_dataSize d \<le> 65535"
    by simp_all
  from dma_startTransfer_ok[OF r ok small, of obs] s obtain m1' where
    res: "Returns (0, d1, m1) = Returns (0, d\<lparr>dma_spiMasterBase_' := Some obs, dma_size_' := sz\<rparr>, m1')"
    and p: "unat (NDTR (channels m1' (rxDmaChannel_' d))) = unat sz div dma_dataSize d"
           "unat (NDTR (channels m1' (txDmaChannel_' d))) = unat sz div dma_dataSize d"
           "functor_' (channels m1' (rxDmaChannel_' d)) = Some RxDmaChannelFunctor"
           "functor_' (channels m1' (txDmaChannel_' d)) = Some TxDmaChannelFunctor"
           "enabled (channels m1' (rxDmaChannel_' d))" "enabled (channels m1' (txDmaChannel_' d))"
    and t: "length (trace m1') = length (trace m) + 4"
           "take (length (trace m)) (trace m1') = trace m"
           "\<forall>obs n. TransferCompleteEvent obs n \<notin> set (drop (length (trace m)) (trace m1'))"
    by auto
  from res have d1: "d1 = d\<lparr>dma_spiMasterBase_' := Some obs, dma_size_' := sz\<rparr>" and m1: "m1 = m1'"
    by simp_all
  from ok have sz: "sz \<noteq> 0" "dma_dataSize d dvd unat sz" by (simp_all add: dma_request_ok_def)
  have le: "unat sz div dma_dataSize d * dma_dataSize d \<le> unat sz" by simp
  have ds: "dma_dataSize d1 = dma_dataSize d" by (simp add: d1 dma_dataSize_def)
  have busy: "dma_busy obs sz d1 m1"
    using r sz p le unfolding dma_busy_def ds m1 by (simp add: d1 dma_ready_def dma_isStarted_def)
  have none: "transferCompleteEvents xs = []" if "\<forall>obs n. TransferCompleteEvent obs n \<notin> set xs" for xs
    using that by (induction xs rule: transferCompleteEvents.induct) auto
  have "trace m1' = take (length (trace m)) (trace m1') @ drop (length (trace m)) (trace m1')"
    by simp
  then have "transferCompleteEvents (trace m1')
      = transferCompleteEvents (trace m) @ transferCompleteEvents (drop (length (trace m)) (trace m1'))"
    unfolding t(2) by (metis transferCompleteEvents_append t(2))
  then have "transferCompleteEvents (trace m1') = transferCompleteEvents (trace m)"
    using none[OF t(3)] by simp
  then show ?thesis using busy m1 by simp
qed

subsection \<open>The states between two transfers and during a transfer\<close>

lemma dma_start_new:
  "dma_start (dma_constructed 2 1 3 1) newMachine = (0, dma_idle 8, reservedMachine)"
  by (simp add: dma_start_def dma_constructed_def newMachine_def dma_idle_def reservedMachine_def
      dma_isStarted_def newHandle_def UniqueHandle_reserve_def DmaChannel_reserve_def
      UniqueHandle_release_def DmaChannel_release_def newChannel_def call_def Let_def fun_upd_twist
      SPI_CR1_SSM_def SPI_CR1_SSI_def SPI_CR1_SPE_def SPI_CR1_BR_def SPI_CR1_MSTR_def
      SPI_CR2_FRXTH_def SPI_CR2_DS_Pos_def SPI_CR2_TXDMAEN_def SPI_CR2_RXDMAEN_def)

lemma dma_idle_ready:
  assumes "minWordLength \<le> wl" "wl \<le> maxWordLength"
  shows "dma_ready (dma_idle wl) reservedMachine"
  using assms
  by (simp add: dma_ready_def dma_idle_def reservedMachine_def dma_constructed_def
      dma_isStarted_def dma_isTransferInProgress_def newChannel_def)

lemma dma_busy16_busy: "dma_busy 1 10 dma_busy16 busyMachine"
  by (simp add: dma_busy_def dma_busy16_def busyMachine_def reservedMachine_def
      dma_constructed_def dma_isStarted_def newChannel_def minWordLength_def maxWordLength_def
      dma_dataSize_def)

lemma dma_start_ready:
  assumes "\<not> dma_isTransferInProgress d"
    and "channel_' (rxDmaChannelUniqueHandle_' d) = None"
    and "channel_' (txDmaChannelUniqueHandle_' d) = None"
    and "\<not> enabled (channels m (rxDmaChannel_' d))" "\<not> enabled (channels m (txDmaChannel_' d))"
    and "dma_start d m = (0, d1, m1)"
  shows "dma_ready d1 m1"
proof -
  have ns: "\<not> dma_isStarted d"
  proof
    assume "dma_isStarted d"
    then have "dma_start d m = (EBADF, d, m)" by (simp add: dma_start_def)
    with assms(6) show False by (simp add: EBADF_def)
  qed
  show ?thesis
  using assms ns
  by (auto simp: dma_start_def dma_ready_def UniqueHandle_reserve_def DmaChannel_reserve_def
      UniqueHandle_release_def DmaChannel_release_def
      call_def Let_def dma_isStarted_def dma_isTransferInProgress_def minWordLength_def
      maxWordLength_def EBUSY_def EINVAL_def split: if_splits prod.splits option.splits)
qed

lemma bytes_le:
  fixes sz left :: "32 word"
  assumes "unat left * dma_dataSize d \<le> unat sz"
  shows "sz - left * of_nat (dma_dataSize d) \<le> sz"
proof -
  from bytes_left[of left "wordLength_' d" sz] assms
  have "unat (sz - left * of_nat (dma_dataSize d)) = unat sz - unat left * dma_dataSize d"
    unfolding dma_dataSize_def by simp
  then show ?thesis by (simp add: word_le_nat_alt)
qed

text \<open>
  The completion of a transfer in progress: \<open>eventHandler\<close> calls the observer, whatever
  the observer does, with the driver cleared and idle and with both channels stopped.
\<close>

lemma atCompletion_fields:
  "trace (atCompletion obs n d m) = trace m @ [ChannelStopTransfer (txDmaChannel_' d),
       ChannelStopTransfer (rxDmaChannel_' d), SetSize 0, SetSpiMasterBase None,
       TransferCompleteEvent obs n]"
  "\<not> enabled (channels (atCompletion obs n d m) (rxDmaChannel_' d))"
  "\<not> enabled (channels (atCompletion obs n d m) (txDmaChannel_' d))"
  by (simp_all add: atCompletion_def)

lemma eventHandler_busy:
  assumes b: "dma_busy obs sz d m"
  shows "eventHandler transferCompleteEvent transactionsLeft d m =
           transferCompleteEvent obs (sz - transactionsLeft * of_nat (dma_dataSize d))
             (d\<lparr>dma_size_' := 0, dma_spiMasterBase_' := None\<rparr>)
             (atCompletion obs (sz - transactionsLeft * of_nat (dma_dataSize d)) d m)"
    and "dma_ready (d\<lparr>dma_size_' := 0, dma_spiMasterBase_' := None\<rparr>) (atCompletion obs n d m)"
proof -
  define rx where "rx = rxDmaChannel_' d"
  define tx where "tx = txDmaChannel_' d"
  from b have hr: "channel_' (rxDmaChannelUniqueHandle_' d) = Some rx"
    and ht: "channel_' (txDmaChannelUniqueHandle_' d) = Some tx"
    and ob: "dma_spiMasterBase_' d = Some obs" and sz: "dma_size_' d = sz"
    and ne: "rx \<noteq> tx"
    by (simp_all add: dma_busy_def rx_def tx_def)
  have e: "((channels m)(txDmaChannel_' d := (channels m (txDmaChannel_' d))\<lparr>enabled := False\<rparr>))
             (rxDmaChannel_' d) = channels m (rxDmaChannel_' d)"
    using ne by (simp add: rx_def tx_def)
  show "eventHandler transferCompleteEvent transactionsLeft d m =
           transferCompleteEvent obs (sz - transactionsLeft * of_nat (dma_dataSize d))
             (d\<lparr>dma_size_' := 0, dma_spiMasterBase_' := None\<rparr>)
             (atCompletion obs (sz - transactionsLeft * of_nat (dma_dataSize d)) d m)"
    unfolding eventHandler_started[OF ht hr ob, unfolded rx_def tx_def] e atCompletion_def sz
      dma_dataSize_def ..
  show "dma_ready (d\<lparr>dma_size_' := 0, dma_spiMasterBase_' := None\<rparr>) (atCompletion obs n d m)"
    using b ne unfolding dma_ready_def dma_busy_def
    by (simp add: atCompletion_def rx_def tx_def dma_isStarted_def dma_isTransferInProgress_def)
qed

lemma transactionsDone_busy:
  assumes "dma_busy obs sz d m"
  shows "dma_busy obs sz d (transactionsDone c k m) \<and> trace (transactionsDone c k m) = trace m"
proof -
  have le: "unat (of_nat (unat (N :: 32 word) - k) :: 32 word) \<le> unat N" for N
  proof -
    have "unat N < 2 ^ 32" using unsigned_less[of N, where 'a = nat] by simp
    then have "unat N - k < 2 ^ 32" by arith
    then have "unat (of_nat (unat N - k) :: 32 word) = unat N - k" by (simp add: unat_of_nat)
    then show ?thesis by simp
  qed
  have mono: "a * n \<le> s" if "b * n \<le> s" "a \<le> b" for a b n s :: nat
    using that by (meson le_trans mult_le_mono1)
  show ?thesis
    using assms le[of "NDTR (channels m c)"]
    unfolding dma_busy_def transactionsDone_def
    by (auto intro: mono)
qed

lemma hardwareProgress_busy:
  assumes "dma_busy obs sz d m"
  shows "dma_busy obs sz d (hardwareProgress steps m) \<and> trace (hardwareProgress steps m) = trace m"
  using assms
proof (induction steps arbitrary: m)
  case Nil
  then show ?case by simp
next
  case (Cons step steps)
  obtain c k where step: "step = (c, k)" by (cases step)
  from transactionsDone_busy[OF Cons.prems, of c k]
  have "dma_busy obs sz d (transactionsDone c k m)" "trace (transactionsDone c k m) = trace m"
    by simp_all
  with Cons.IH[of "transactionsDone c k m"] show ?case by (simp add: step)
qed

lemma transactionsDone_fields:
  "trace (transactionsDone c k m) = trace m"
  "enabled (channels (transactionsDone c k m) c') = enabled (channels m c')"
  by (simp_all add: transactionsDone_def)

lemma hardwareProgress_fields:
  "trace (hardwareProgress steps m) = trace m"
  "enabled (channels (hardwareProgress steps m) c') = enabled (channels m c')"
proof -
  show "trace (hardwareProgress steps m) = trace m"
  proof (induction steps arbitrary: m)
    case Nil
    then show ?case by simp
  next
    case (Cons step steps)
    obtain c k where step: "step = (c, k)" by (cases step)
    show ?case unfolding step hardwareProgress.simps Cons.IH by (rule transactionsDone_fields)
  qed
  show "enabled (channels (hardwareProgress steps m) c') = enabled (channels m c')"
  proof (induction steps arbitrary: m)
    case Nil
    then show ?case by simp
  next
    case (Cons step steps)
    obtain c k where step: "step = (c, k)" by (cases step)
    show ?case unfolding step hardwareProgress.simps Cons.IH by (rule transactionsDone_fields)
  qed
qed

text \<open>
  The interrupts of the two channels during a transfer. The transfer-complete
  interrupt of the TX channel changes nothing. Each of the three others ends the
  transfer: the observer is called with \<open>sz - transactionsLeft * dataSize\<close> bytes, where
  \<open>transactionsLeft\<close> is 0 for the transfer-complete interrupt and the counter of the
  channel that has the error for a transfer-error interrupt.
\<close>

lemma DmaChannel_interruptHandler_continues:
  assumes "dma_busy obs sz d m"
  shows "DmaChannel_interruptHandler transferCompleteEvent TransferComplete (txDmaChannel_' d) d m
           = Returns (d, m)"
  using assms by (simp add: dma_busy_def DmaChannel_interruptHandler_def)

lemma DmaChannel_interruptHandler_ends:
  assumes b: "dma_busy obs sz d m"
    and c: "c = rxDmaChannel_' d \<or> c = txDmaChannel_' d"
    and e: "interrupt = TransferError \<or> c = rxDmaChannel_' d"
  shows "DmaChannel_interruptHandler transferCompleteEvent interrupt c d m =
           transferCompleteEvent obs
             (sz - (if interrupt = TransferComplete then 0 else NDTR (channels m c))
                     * of_nat (dma_dataSize d))
             (d\<lparr>dma_size_' := 0, dma_spiMasterBase_' := None\<rparr>)
             (atCompletion obs
                (sz - (if interrupt = TransferComplete then 0 else NDTR (channels m c))
                        * of_nat (dma_dataSize d)) d m)"
    and "sz - (if interrupt = TransferComplete then 0 else NDTR (channels m c))
                * of_nat (dma_dataSize d) \<le> sz"
    and "unat (sz - (if interrupt = TransferComplete then 0 else NDTR (channels m c))
                      * of_nat (dma_dataSize d))
           = unat sz - unat (if interrupt = TransferComplete then 0 else NDTR (channels m c))
                         * dma_dataSize d"
proof -
  define left where "left = (if interrupt = TransferComplete then 0 else NDTR (channels m c))"
  from b have fr: "functor_' (channels m (rxDmaChannel_' d)) = Some RxDmaChannelFunctor"
    and ft: "functor_' (channels m (txDmaChannel_' d)) = Some TxDmaChannelFunctor"
    and nr: "unat (NDTR (channels m (rxDmaChannel_' d))) * dma_dataSize d \<le> unat sz"
    and nt: "unat (NDTR (channels m (txDmaChannel_' d))) * dma_dataSize d \<le> unat sz"
    by (simp_all add: dma_busy_def)
  have le: "unat left * dma_dataSize d \<le> unat sz"
    using c nr nt by (auto simp: left_def)
  have h: "DmaChannel_interruptHandler transferCompleteEvent interrupt c d m
             = eventHandler transferCompleteEvent left d m"
  proof (cases "c = rxDmaChannel_' d")
    case True
    then show ?thesis using fr
      by (cases interrupt)
        (simp_all add: DmaChannel_interruptHandler_def left_def
          RxDmaChannelFunctor_transferCompleteEvent_def RxDmaChannelFunctor_transferErrorEvent_def
          DmaChannel_getTransactionsLeft_def)
  next
    case False
    then have "c = txDmaChannel_' d" "interrupt = TransferError" using c e by simp_all
    then show ?thesis using ft
      by (simp add: DmaChannel_interruptHandler_def left_def
          TxDmaChannelFunctor_transferErrorEvent_def DmaChannel_getTransactionsLeft_def)
  qed
  show "DmaChannel_interruptHandler transferCompleteEvent interrupt c d m =
           transferCompleteEvent obs
             (sz - (if interrupt = TransferComplete then 0 else NDTR (channels m c))
                     * of_nat (dma_dataSize d))
             (d\<lparr>dma_size_' := 0, dma_spiMasterBase_' := None\<rparr>)
             (atCompletion obs
                (sz - (if interrupt = TransferComplete then 0 else NDTR (channels m c))
                        * of_nat (dma_dataSize d)) d m)"
    unfolding h left_def[symmetric] by (rule eventHandler_busy(1)[OF b])
  show "sz - (if interrupt = TransferComplete then 0 else NDTR (channels m c))
                * of_nat (dma_dataSize d) \<le> sz"
    unfolding left_def[symmetric] using le by (rule bytes_le)
  from bytes_left[of left "wordLength_' d" sz] le
  show "unat (sz - (if interrupt = TransferComplete then 0 else NDTR (channels m c))
                      * of_nat (dma_dataSize d))
           = unat sz - unat (if interrupt = TransferComplete then 0 else NDTR (channels m c))
                         * dma_dataSize d"
    unfolding left_def[symmetric] dma_dataSize_def by simp
qed

lemma transferCompleteEvents_completion:
  "transferCompleteEvents (trace (atCompletion obs n d m))
     = transferCompleteEvents (trace m) @ [(obs, n)]"
  by (simp add: atCompletion_fields transferCompleteEvents_append)

text \<open>
  After the completion both channels are stopped, and no interrupt reaches the driver
  any more.
\<close>

lemma dma_interrupts_stopped:
  assumes "\<not> enabled (channels m (rxDmaChannel_' d))" "\<not> enabled (channels m (txDmaChannel_' d))"
  shows "\<exists>m2. dma_interrupts evs d m = Returns (d, m2) \<and> trace m2 = trace m"
  using assms
proof (induction evs arbitrary: m)
  case Nil
  then show ?case by simp
next
  case (Cons ev evs)
  obtain steps interrupt which where ev: "ev = (steps, interrupt, which)" by (cases ev)
  have off: "\<not> enabled (channels (hardwareProgress steps m) (dmaChannelOf which d))"
    using Cons.prems by (cases which) (simp_all add: dmaChannelOf_def hardwareProgress_fields)
  have "\<not> enabled (channels (hardwareProgress steps m) (rxDmaChannel_' d))"
    "\<not> enabled (channels (hardwareProgress steps m) (txDmaChannel_' d))"
    using Cons.prems by (simp_all add: hardwareProgress_fields)
  from Cons.IH[OF this] obtain m2 where
    "dma_interrupts evs d (hardwareProgress steps m) = Returns (d, m2)"
    "trace m2 = trace (hardwareProgress steps m)"
    by blast
  then show ?case using off by (simp add: ev hardwareProgress_fields)
qed

lemma dma_interrupts_busy:
  assumes "dma_busy obs sz d m"
  shows "\<exists>d2 m2. dma_interrupts evs d m = Returns (d2, m2) \<and>
     (if list_ex endsTransfer evs
      then \<not> dma_isTransferInProgress d2 \<and>
           (\<exists>n. transferCompleteEvents (trace m2) = transferCompleteEvents (trace m) @ [(obs, n)] \<and>
                n \<le> sz)
      else dma_busy obs sz d2 m2 \<and>
           transferCompleteEvents (trace m2) = transferCompleteEvents (trace m))"
  using assms
proof (induction evs arbitrary: m)
  case Nil
  then show ?case by simp
next
  case (Cons ev evs)
  obtain steps interrupt which where ev: "ev = (steps, interrupt, which)" by (cases ev)
  define m' where "m' = hardwareProgress steps m"
  define c where "c = dmaChannelOf which d"
  from hardwareProgress_busy[OF Cons.prems, of steps]
  have b': "dma_busy obs sz d m'" and t': "trace m' = trace m" by (simp_all add: m'_def)
  have cc: "c = rxDmaChannel_' d \<or> c = txDmaChannel_' d"
    by (cases which) (simp_all add: c_def dmaChannelOf_def)
  from b' cc have on: "enabled (channels m' c)" by (auto simp: dma_busy_def)
  have step: "dma_interrupts (ev # evs) d m =
      (case DmaChannel_interruptHandler dma_emptyCallback interrupt c d m' of
         Fault f \<Rightarrow> Fault f
       | Returns (d1, m1) \<Rightarrow> dma_interrupts evs d1 m1)"
    using on by (simp add: ev m'_def c_def)
  show ?case
  proof (cases "endsTransfer ev")
    case False
    then have i: "interrupt = TransferComplete" and w: "which = TxDma"
      by (cases interrupt; cases which; simp add: endsTransfer_def ev)+
    have "c = txDmaChannel_' d" by (simp add: c_def w dmaChannelOf_def)
    with DmaChannel_interruptHandler_continues[OF b', of dma_emptyCallback]
    have run: "dma_interrupts (ev # evs) d m = dma_interrupts evs d m'"
      unfolding step by (simp add: i)
    from Cons.IH[OF b'] obtain d2 m2 where
      r: "dma_interrupts evs d m' = Returns (d2, m2)"
      and k: "if list_ex endsTransfer evs
      then \<not> dma_isTransferInProgress d2 \<and>
           (\<exists>n. transferCompleteEvents (trace m2) = transferCompleteEvents (trace m') @ [(obs, n)] \<and>
                n \<le> sz)
      else dma_busy obs sz d2 m2 \<and>
           transferCompleteEvents (trace m2) = transferCompleteEvents (trace m')"
      by blast
    have l: "list_ex endsTransfer (ev # evs) = list_ex endsTransfer evs" using False by simp
    show ?thesis
      unfolding run l using r k[unfolded t'] by (intro exI[of _ d2] exI[of _ m2] conjI)
  next
    case True
    then have e: "interrupt = TransferError \<or> c = rxDmaChannel_' d"
      by (cases which) (auto simp: endsTransfer_def ev c_def dmaChannelOf_def)
    define n where "n = sz - (if interrupt = TransferComplete then 0 else NDTR (channels m' c))
                           * of_nat (dma_dataSize d)"
    define d1 where "d1 = d\<lparr>dma_size_' := 0, dma_spiMasterBase_' := None\<rparr>"
    define m1 where "m1 = atCompletion obs n d m'"
    have h: "DmaChannel_interruptHandler dma_emptyCallback interrupt c d m' = Returns (d1, m1)"
      unfolding DmaChannel_interruptHandler_ends(1)[OF b' cc e] n_def d1_def m1_def by simp
    have n: "n \<le> sz" unfolding n_def by (rule DmaChannel_interruptHandler_ends(2)[OF b' cc e])
    have off1: "\<not> enabled (channels m1 (rxDmaChannel_' d1))"
               "\<not> enabled (channels m1 (txDmaChannel_' d1))"
      by (simp_all add: d1_def m1_def atCompletion_def)
    from dma_interrupts_stopped[OF off1, of evs] obtain m2 where
      rest: "dma_interrupts evs d1 m1 = Returns (d1, m2)" and t2: "trace m2 = trace m1"
      by blast
    have run: "dma_interrupts (ev # evs) d m = Returns (d1, m2)"
      unfolding step h using rest by simp
    have ev2: "transferCompleteEvents (trace m2) = transferCompleteEvents (trace m) @ [(obs, n)]"
      unfolding t2 m1_def transferCompleteEvents_completion t' ..
    have idle: "\<not> dma_isTransferInProgress d1"
      by (simp add: d1_def dma_isTransferInProgress_def)
    have l: "list_ex endsTransfer (ev # evs)" using True by simp
    have "\<exists>n. transferCompleteEvents (trace m2) = transferCompleteEvents (trace m) @ [(obs, n)] \<and>
                n \<le> sz"
      using ev2 n by (intro exI[of _ n] conjI)
    then show ?thesis
      unfolding run using idle l by (intro exI[of _ d1] exI[of _ m2] conjI) simp_all
  qed
qed

section \<open>Properties of both drivers\<close>

subsection \<open>The size of a transfer\<close>

text \<open>
  Claim C7, amended. On a started, idle driver of either variant \<open>startTransfer\<close>
  returns \<open>EINVAL\<close> when the size is 0 or is not a multiple of the number of bytes of a
  word. The interrupt-based driver accepts every other size. The DMA-based driver
  hands the other sizes to its two DMA channels: when the buffers and the data register
  are aligned to the word size, it succeeds if the transfer has at most 65535 words and
  returns \<open>ENOTSUP\<close>, the answer of the RX channel, if it has more.
\<close>

theorem startTransfer_size:
  assumes "isStarted s" and "\<not> isTransferInProgress s" and "dma_ready d m"
  shows "fst (startTransfer obs writeBuffer readBuffer sz s)
           = (if sz = 0 \<or> \<not> dataSize s dvd unat sz then EINVAL else 0) \<and>
         (sz = 0 \<or> \<not> dma_dataSize d dvd unat sz \<longrightarrow>
            dma_startTransfer obs writeBuffer readBuffer sz d m = Returns (EINVAL, d, m)) \<and>
         (dma_request_ok writeBuffer readBuffer sz d \<longrightarrow>
            (\<exists>d1 m1. dma_startTransfer obs writeBuffer readBuffer sz d m
               = Returns (if unat sz div dma_dataSize d \<le> 65535 then 0 else ENOTSUP, d1, m1)))"
proof (intro conjI impI)
  show "fst (startTransfer obs writeBuffer readBuffer sz s)
           = (if sz = 0 \<or> \<not> dataSize s dvd unat sz then EINVAL else 0)"
    unfolding startTransfer_idle[OF assms(1,2)] by simp
next
  assume "sz = 0 \<or> \<not> dma_dataSize d dvd unat sz"
  with assms(3) show "dma_startTransfer obs writeBuffer readBuffer sz d m = Returns (EINVAL, d, m)"
    by (rule dma_startTransfer_invalid_size)
next
  assume ok: "dma_request_ok writeBuffer readBuffer sz d"
  show "\<exists>d1 m1. dma_startTransfer obs writeBuffer readBuffer sz d m
               = Returns (if unat sz div dma_dataSize d \<le> 65535 then 0 else ENOTSUP, d1, m1)"
  proof (cases "unat sz div dma_dataSize d \<le> 65535")
    case True
    from dma_startTransfer_ok[OF assms(3) ok True, of obs] obtain m1 where
      "dma_startTransfer obs writeBuffer readBuffer sz d m =
             Returns (0, d\<lparr>dma_spiMasterBase_' := Some obs, dma_size_' := sz\<rparr>, m1)"
      by blast
    with True show ?thesis by simp
  next
    case False
    then have "65535 < unat sz div dma_dataSize d" by simp
    from dma_startTransfer_too_long[OF assms(3) ok this, of obs] obtain m1 where
      "dma_startTransfer obs writeBuffer readBuffer sz d m = Returns (ENOTSUP, d, m1)"
      by blast
    with False show ?thesis by simp
  qed
qed

theorem startTransfer_size_witness:
  "configure cpol0cpha0 80000000 12 False 0 (snd (start (constructed 80000000)))
     = Returns ((0, 40000000), configured12) \<and>
   isStarted configured12 \<and> \<not> isTransferInProgress configured12 \<and>
   getWordLength (ucast (CR2 configured12)) = 12 \<and>
   dma_ready (dma_idle 12) reservedMachine \<and> wordLength_' (dma_idle 12) = 12 \<and>
   fst (startTransfer 1 0x20000100 0x20000000 1 configured12) = EINVAL \<and>
   fst (startTransfer 1 0x20000100 0x20000000 2 configured12) = 0 \<and>
   dma_startTransfer 1 0x20000100 0x20000000 1 (dma_idle 12) reservedMachine
     = Returns (EINVAL, dma_idle 12, reservedMachine) \<and>
   dma_request_ok 0x20000100 0x20000000 2 (dma_idle 12) \<and>
   (\<exists>d1 m1. dma_startTransfer 1 0x20000100 0x20000000 2 (dma_idle 12) reservedMachine
              = Returns (0, d1, m1))"
proof -
  have c: "configure cpol0cpha0 80000000 12 False 0 (snd (start (constructed 80000000)))
     = Returns ((0, 40000000), configured12)"
    by (simp add: configure_def start_def constructed_def configured12_def isStarted_def
        isTransferInProgress_def minWordLength_def maxWordLength_def Let_def of_bool32_def
        SPI_CR1_CPHA_def SPI_CR1_CPOL_def SPI_CR1_MSTR_def SPI_CR1_BR_def SPI_CR1_SPE_def
        SPI_CR1_LSBFIRST_def SPI_CR1_SSI_def SPI_CR1_SSM_def SPI_CR1_CPHA_Pos_def
        SPI_CR1_CPOL_Pos_def SPI_CR1_BR_Pos_def SPI_CR1_LSBFIRST_Pos_def
        SPI_CR2_DS_def SPI_CR2_FRXTH_def SPI_CR2_DS_Pos_def SPI_CR2_FRXTH_Pos_def)
  have h1: "isStarted configured12" by (simp add: configured12_def isStarted_def)
  have h2: "\<not> isTransferInProgress configured12"
    by (simp add: configured12_def isTransferInProgress_def constructed_def)
  have wl: "getWordLength (ucast (CR2 configured12)) = 12"
    by (simp add: configured12_def getWordLength_def SPI_CR2_DS_def SPI_CR2_DS_Pos_def)
  have ds: "dataSize configured12 = 2" unfolding dataSize_def wl by simp
  have h3: "dma_ready (dma_idle 12) reservedMachine"
    by (rule dma_idle_ready) (simp_all add: minWordLength_def maxWordLength_def)
  have dwl: "wordLength_' (dma_idle 12) = 12" by (simp add: dma_idle_def)
  have dds: "dma_dataSize (dma_idle 12) = 2" unfolding dma_dataSize_def dwl by simp
  have ok: "dma_request_ok 0x20000100 0x20000000 2 (dma_idle 12)"
    unfolding dma_request_ok_def dds
    by (simp add: aligned_def nullptr_def dma_idle_def dma_constructed_def)
  have ne: "EINVAL \<noteq> 0" by (simp add: EINVAL_def)
  from startTransfer_size [OF h1 h2 h3, of 1 "0x20000100" "0x20000000" 1]
  have a: "fst (startTransfer 1 0x20000100 0x20000000 1 configured12) = EINVAL"
    and b: "dma_startTransfer 1 0x20000100 0x20000000 1 (dma_idle 12) reservedMachine
     = Returns (EINVAL, dma_idle 12, reservedMachine)"
    unfolding ds dds by simp_all
  from startTransfer_size [OF h1 h2 h3, of 1 "0x20000100" "0x20000000" 2] ok
  have e: "fst (startTransfer 1 0x20000100 0x20000000 2 configured12) = 0"
    and f: "\<exists>d1 m1. dma_startTransfer 1 0x20000100 0x20000000 2 (dma_idle 12) reservedMachine
              = Returns (0, d1, m1)"
    unfolding ds dds by simp_all
  from c h1 h2 wl h3 dwl a e b ok f show ?thesis by (intro conjI)
qed

text \<open>
  Claim C7 as it is written fails for the DMA-based driver. On the driver that \<open>start\<close>
  leaves, with words of 8 bits, the size 65536 is a positive multiple of the word size
  and \<open>startTransfer\<close> returns \<open>ENOTSUP\<close>: the RX channel refuses to be configured for
  more than 65535 transactions and the driver returns what the channel answered.
\<close>

theorem startTransfer_size_counterexample:
  "dma_start (dma_constructed 2 1 3 1) newMachine = (0, dma_idle 8, reservedMachine) \<and>
   dma_isStarted (dma_idle 8) \<and> \<not> dma_isTransferInProgress (dma_idle 8) \<and>
   wordLength_' (dma_idle 8) = 8 \<and> unat (65536 :: size_t) mod ((8 + 8 - 1) div 8) = 0 \<and>
   dma_startTransfer 1 0x20000100 0x20000000 65536 (dma_idle 8) reservedMachine
     = Returns (ENOTSUP, dma_idle 8,
         call (ChannelConfigureTransfer 2 0x20000000 0x4001300C 65536
                 ((peripheralFixed OR dataSize1) OR
                  (transferCompleteInterruptEnable OR peripheralToMemory OR memoryIncrement
                   OR veryHighPriority))) reservedMachine) \<and>
   ENOTSUP \<noteq> 0"
proof -
  have r: "dma_ready (dma_idle 8) reservedMachine"
    by (rule dma_idle_ready) (simp_all add: minWordLength_def maxWordLength_def)
  have sz: "(65536 :: size_t) \<noteq> 0" "dma_dataSize (dma_idle 8) dvd unat (65536 :: size_t)"
    by (simp_all add: dma_dataSize_def dma_idle_def)
  have hr: "channel_' (rxDmaChannelUniqueHandle_' (dma_idle 8)) = Some 2"
    by (simp add: dma_idle_def)
  have en: "\<not> enabled (channels reservedMachine 2)"
    by (simp add: reservedMachine_def newChannel_def)
  have dds: "dma_dataSize (dma_idle 8) = 1" by (simp add: dma_dataSize_def dma_idle_def)
  have t: "dma_startTransfer 1 0x20000100 0x20000000 65536 (dma_idle 8) reservedMachine
     = Returns (ENOTSUP, dma_idle 8,
         call (ChannelConfigureTransfer 2 0x20000000 0x4001300C 65536
                 ((peripheralFixed OR dataSize1) OR
                  (transferCompleteInterruptEnable OR peripheralToMemory OR memoryIncrement
                   OR veryHighPriority))) reservedMachine)"
    unfolding dma_startTransfer_rx_configure[OF r sz] Let_def
      UniqueHandle_configureTransfer_Some[OF hr]
      DmaChannel_configureTransfer_cases[OF en] dds
    by (simp add: dma_idle_def dma_constructed_def nullptr_def ENOTSUP_def aligned_def call_def
        memoryAlignment_def peripheralAlignment_def dataSizeOf_def burstSizeOf_def
        DmaChannelFlags_defs fun_upd_idem)
  show ?thesis
    using dma_start_new t
    by (simp add: dma_idle_def dma_constructed_def dma_isStarted_def
        dma_isTransferInProgress_def ENOTSUP_def)
qed

subsection \<open>The interrupts of a transfer of the interrupt-based driver\<close>

text \<open>
  Whatever the observer does in its callback, \<open>interruptHandler\<close> does what it does for
  the observer that does nothing, and then, if the transfer is finished, the observer
  runs on the driver that this leaves.
\<close>

lemma interruptHandler_callback:
  "interruptHandler transferCompleteEvent sr dr s =
    (case interruptHandler emptyCallback sr dr s of
       Fault f \<Rightarrow> Fault f
     | Returns (s0, None) \<Rightarrow> Returns (s0, None)
     | Returns (s0, Some (obs, n)) \<Rightarrow>
         (case transferCompleteEvent obs n s0 of
            Fault f \<Rightarrow> Fault f
          | Returns s1 \<Rightarrow> Returns (s1, Some (obs, n))))"
proof -
  have t: "transferDone transferCompleteEvent x =
    (case transferDone emptyCallback x of
       Fault f \<Rightarrow> Fault f
     | Returns (s0, None) \<Rightarrow> Returns (s0, None)
     | Returns (s0, Some (obs, n)) \<Rightarrow>
         (case transferCompleteEvent obs n s0 of
            Fault f \<Rightarrow> Fault f
          | Returns s1 \<Rightarrow> Returns (s1, Some (obs, n))))" for x
    by (cases "spiMasterBase_' x") (simp_all add: transferDone_def Let_def split: outcome.splits)
  define x where "x = (if sr AND SPI_SR_OVR \<noteq> 0 \<and> CR2 s AND SPI_CR2_ERRIE \<noteq> 0 then overrunError sr s
              else if sr AND SPI_SR_RXNE \<noteq> 0 \<and> CR2 s AND SPI_CR2_RXNEIE \<noteq> 0
                then readWord (getWordLength (ucast (CR2 s))) dr s
              else if sr AND SPI_SR_TXE \<noteq> 0 \<and> CR2 s AND SPI_CR2_TXEIE \<noteq> 0
                then writeWord (getWordLength (ucast (CR2 s))) s
              else (False, s))"
  have h: "interruptHandler cb sr dr s = (if fst x then transferDone cb (snd x) else Returns (snd x, None))"
    for cb
    unfolding x_def by (simp add: interruptHandler_def Let_def case_prod_beta)
  show ?thesis unfolding h by (cases "fst x") (simp_all add: t)
qed

text \<open>
  One interrupt during a transfer. It ends the transfer if it is an overrun with the
  peripheral no longer busy, or the arrival of the last word; otherwise the transfer
  goes on, with one word less to read if a word arrived.
\<close>

lemma wordsLeft_transferring:
  assumes "transferring obs sz s"
  shows "1 \<le> wordsLeft s"
    and "wordsLeft s = 1 \<longleftrightarrow> unat (readPosition_' s) + dataSize s = unat sz"
    and "(unat sz - (unat (readPosition_' s) + dataSize s)) div dataSize s = wordsLeft s - 1"
proof -
  from assms have sz: "size_' s = sz"
    and lt: "unat (readPosition_' s) < unat sz"
    and dv: "dataSize s dvd unat (readPosition_' s)" "dataSize s dvd unat sz"
    by (simp_all add: transferring_def)
  define p where "p = unat (readPosition_' s)"
  define z where "z = unat sz"
  have w: "wordsLeft s = (z - p) div dataSize s" by (simp add: wordsLeft_def sz p_def z_def)
  have lt': "p < z" and dv': "dataSize s dvd p" "dataSize s dvd z"
    using lt dv by (simp_all add: p_def z_def)
  from dataSize_range[of s] show "1 \<le> wordsLeft s"
  proof
    assume "dataSize s = 1" then show ?thesis using lt' unfolding w by simp
  next
    assume d: "dataSize s = 2"
    then have "even p" "even z" using dv' by simp_all
    then show ?thesis using lt' unfolding w d by presburger
  qed
  from dataSize_range[of s]
  show "wordsLeft s = 1 \<longleftrightarrow> unat (readPosition_' s) + dataSize s = unat sz"
  proof
    assume d: "dataSize s = 1"
    show ?thesis using lt' unfolding w d p_def[symmetric] z_def[symmetric] by auto
  next
    assume d: "dataSize s = 2"
    then have "even p" "even z" using dv' by simp_all
    then show ?thesis using lt' unfolding w d p_def[symmetric] z_def[symmetric] by presburger
  qed
  from dataSize_range[of s]
  show "(unat sz - (unat (readPosition_' s) + dataSize s)) div dataSize s = wordsLeft s - 1"
  proof
    assume d: "dataSize s = 1"
    show ?thesis unfolding w d p_def[symmetric] z_def[symmetric] by simp
  next
    assume d: "dataSize s = 2"
    then have "even p" "even z" using dv' by simp_all
    then show ?thesis using lt' unfolding w d p_def[symmetric] z_def[symmetric] by presburger
  qed
qed

lemma interruptHandler_step:
  assumes t: "transferring obs sz s" and a: "armed s"
  shows "if overrunEnds (sr, dr) \<or> (wordArrives (sr, dr) \<and> wordsLeft s = 1)
         then \<exists>s' n. interruptHandler emptyCallback sr dr s = Returns (s', Some (obs, n)) \<and>
                n \<le> sz \<and> quiescent s'
         else \<exists>s'. interruptHandler emptyCallback sr dr s = Returns (s', None) \<and>
                transferring obs sz s' \<and> armed s' \<and>
                wordsLeft s' = wordsLeft s - (if wordArrives (sr, dr) then 1 else 0)"
proof -
  define wl where "wl = getWordLength (ucast (CR2 s))"
  from t have sz: "size_' s = sz" "sz \<noteq> 0" and ob: "spiMasterBase_' s = Some obs"
    and lt: "unat (readPosition_' s) < unat sz"
    and dv: "dataSize s dvd unat (readPosition_' s)" "dataSize s dvd unat sz"
    by (simp_all add: transferring_def)
  from a have en: "CR2 s AND SPI_CR2_ERRIE \<noteq> 0" "CR2 s AND SPI_CR2_RXNEIE \<noteq> 0"
    by (simp_all add: armed_def)
  define c1 where "c1 \<longleftrightarrow> sr AND SPI_SR_OVR \<noteq> 0"
  define c2 where "c2 \<longleftrightarrow> sr AND SPI_SR_RXNE \<noteq> 0"
  define c3 where "c3 \<longleftrightarrow> sr AND SPI_SR_TXE \<noteq> 0 \<and> CR2 s AND SPI_CR2_TXEIE \<noteq> 0"
  have br: "interruptHandler emptyCallback sr dr s =
    (let x = (if c1 then overrunError sr s
              else if c2 then readWord wl dr s
              else if c3 then writeWord wl s
              else (False, s))
     in if fst x then transferDone emptyCallback (snd x) else Returns (snd x, None))"
    unfolding interruptHandler_branches c1_def c2_def c3_def wl_def using en by simp
  have oe: "overrunEnds (sr, dr) \<longleftrightarrow> c1 \<and> sr AND SPI_SR_BSY = 0"
    by (simp add: overrunEnds_def c1_def)
  have wa: "wordArrives (sr, dr) \<longleftrightarrow> \<not> c1 \<and> c2"
    by (simp add: wordArrives_def c1_def c2_def)
  consider (ovr) "c1" | (rx) "\<not> c1" "c2" | (tx) "\<not> c1" "\<not> c2" "c3"
    | (none) "\<not> c1" "\<not> c2" "\<not> c3"
    by blast
  then show ?thesis
  proof cases
    case ovr
    let ?x = "overrunError sr s"
    have h: "interruptHandler emptyCallback sr dr s =
        (if fst ?x then transferDone emptyCallback (snd ?x) else Returns (snd ?x, None))"
      unfolding br using ovr by (simp add: Let_def)
    have ds: "dataSize (snd ?x) = dataSize s" by (rule dataSize_cong) (rule overrunError_fields)
    have f: "fst ?x \<longleftrightarrow> sr AND SPI_SR_BSY = 0" by (rule overrunError_fields)
    show ?thesis
    proof (cases "sr AND SPI_SR_BSY = 0")
      case True
      have "spiMasterBase_' (snd ?x) = Some obs" using ob by (simp add: overrunError_fields)
      from transferDone_quiescent[OF this] obtain s' where
        "transferDone emptyCallback (snd ?x) = Returns (s', Some (obs, readPosition_' (snd ?x)))"
        "quiescent s'"
        by blast
      moreover have "readPosition_' (snd ?x) \<le> sz"
        using lt by (simp add: overrunError_fields word_le_nat_alt)
      ultimately have "\<exists>s' n. interruptHandler emptyCallback sr dr s = Returns (s', Some (obs, n)) \<and>
                n \<le> sz \<and> quiescent s'"
        unfolding h using f True by auto
      then show ?thesis using oe ovr True by simp
    next
      case False
      have tr: "transferring obs sz (snd ?x)"
        using t ds by (simp add: transferring_def overrunError_fields)
      have ar: "armed (snd ?x)" using a by (simp add: armed_def overrunError_fields)
      have wo: "wordsLeft (snd ?x) = wordsLeft s"
        by (simp add: wordsLeft_def ds overrunError_fields)
      have "interruptHandler emptyCallback sr dr s = Returns (snd ?x, None)"
        unfolding h using f False by simp
      then have "\<exists>s'. interruptHandler emptyCallback sr dr s = Returns (s', None) \<and>
                transferring obs sz s' \<and> armed s' \<and> wordsLeft s' = wordsLeft s"
        using tr ar wo by blast
      then show ?thesis using oe wa ovr False by simp
    qed
  next
    case rx
    let ?x = "readWord wl dr s"
    have h: "interruptHandler emptyCallback sr dr s =
        (if fst ?x then transferDone emptyCallback (snd ?x) else Returns (snd ?x, None))"
      unfolding br using rx by (simp add: Let_def)
    have ds: "dataSize (snd ?x) = dataSize s" by (rule dataSize_cong) (rule readWord_fields)
    have pos: "readPosition_' (snd ?x) = readPosition_' s + of_nat (dataSize s)"
      by (rule readWord_position) (rule wl_def)
    from next_word_fits[OF lt dv]
    have u: "unat (readPosition_' (snd ?x)) = unat (readPosition_' s) + dataSize s"
      and le: "unat (readPosition_' s) + dataSize s \<le> unat sz"
      unfolding pos by simp_all
    have f: "fst ?x \<longleftrightarrow> unat (readPosition_' s) + dataSize s = unat sz"
      using sz u by (simp add: readWord_fields word_unat_eq_iff)
    note w = wordsLeft_transferring[OF t]
    show ?thesis
    proof (cases "fst ?x")
      case True
      then have e: "readPosition_' (snd ?x) = sz" using sz by (simp add: readWord_fields)
      have "spiMasterBase_' (snd ?x) = Some obs" using ob by (simp add: readWord_fields)
      from transferDone_quiescent[OF this] obtain s' where
        "transferDone emptyCallback (snd ?x) = Returns (s', Some (obs, readPosition_' (snd ?x)))"
        "quiescent s'"
        by blast
      then have "\<exists>s' n. interruptHandler emptyCallback sr dr s = Returns (s', Some (obs, n)) \<and>
                n \<le> sz \<and> quiescent s'"
        unfolding h using True e by auto
      moreover have "wordsLeft s = 1" using True f w(2) by simp
      ultimately show ?thesis using wa rx by simp
    next
      case False
      then have "unat (readPosition_' (snd ?x)) < unat sz" using f u le by simp
      moreover have "dataSize s dvd unat (readPosition_' (snd ?x))" unfolding u using dv(1) by simp
      ultimately have tr: "transferring obs sz (snd ?x)"
        using sz ob dv(2) ds by (simp add: transferring_def readWord_fields)
      have ar: "armed (snd ?x)" using a by (simp add: armed_def readWord_fields)
      have wo: "wordsLeft (snd ?x) = wordsLeft s - 1"
        unfolding wordsLeft_def ds u using w(3) sz by (simp add: readWord_fields wordsLeft_def)
      have "interruptHandler emptyCallback sr dr s = Returns (snd ?x, None)"
        unfolding h using False by simp
      then have "\<exists>s'. interruptHandler emptyCallback sr dr s = Returns (s', None) \<and>
                transferring obs sz s' \<and> armed s' \<and> wordsLeft s' = wordsLeft s - 1"
        using tr ar wo by blast
      moreover have "wordsLeft s \<noteq> 1" using False f w(2) by simp
      ultimately show ?thesis using oe wa rx by simp
    qed
  next
    case tx
    let ?x = "writeWord wl s"
    have h: "interruptHandler emptyCallback sr dr s = Returns (snd ?x, None)"
      unfolding br using tx by (simp add: Let_def writeWord_fields)
    have ds: "dataSize (snd ?x) = dataSize s" by (rule dataSize_cong) (rule writeWord_fields)
    have tr: "transferring obs sz (snd ?x)"
      using t ds by (simp add: transferring_def writeWord_fields)
    have ar: "armed (snd ?x)" using a by (simp add: armed_def writeWord_fields)
    have wo: "wordsLeft (snd ?x) = wordsLeft s"
      by (simp add: wordsLeft_def ds writeWord_fields)
    have "\<exists>s'. interruptHandler emptyCallback sr dr s = Returns (s', None) \<and>
                transferring obs sz s' \<and> armed s' \<and> wordsLeft s' = wordsLeft s"
      using h tr ar wo by blast
    then show ?thesis using oe wa tx by simp
  next
    case none
    have h: "interruptHandler emptyCallback sr dr s = Returns (s, None)"
      unfolding br using none by (simp add: Let_def)
    then show ?thesis using t a oe wa none by simp
  qed
qed

text \<open>
  A sequence of interrupts during a transfer. The observer is called, once, exactly if
  the sequence holds an overrun with the peripheral no longer busy or as many arrivals
  of a word as there are words left to read; the interrupts that follow the completion
  find the driver idle and do nothing.
\<close>

lemma interrupts_completion:
  assumes "transferring obs sz s" and "armed s"
  shows "\<exists>s' events. interrupts irqs s = Returns (s', events) \<and>
           (if list_ex overrunEnds irqs \<or> wordsLeft s \<le> length (filter wordArrives irqs)
            then quiescent s' \<and> (\<exists>n. events = [(obs, n)] \<and> n \<le> sz)
            else transferring obs sz s' \<and> armed s' \<and> events = [])"
  using assms
proof (induction irqs arbitrary: s)
  case Nil
  from wordsLeft_transferring(1)[OF Nil(1)] have "\<not> wordsLeft s \<le> 0" by simp
  then show ?case using Nil by simp
next
  case (Cons irq irqs)
  obtain sr dr where irq: "irq = (sr, dr)" by (cases irq)
  note w = wordsLeft_transferring(1)[OF Cons.prems(1)]
  show ?case
  proof (cases "overrunEnds (sr, dr) \<or> (wordArrives (sr, dr) \<and> wordsLeft s = 1)")
    case True
    with interruptHandler_step[OF Cons.prems, of sr dr] obtain s1 n where
      h: "interruptHandler emptyCallback sr dr s = Returns (s1, Some (obs, n))"
      and n: "n \<le> sz" and q: "quiescent s1"
      by auto
    from interrupts_quiescent[OF q] have r: "interrupts irqs s1 = Returns (s1, [])" .
    have c: "list_ex overrunEnds (irq # irqs) \<or> wordsLeft s \<le> length (filter wordArrives (irq # irqs))"
      using True by (auto simp: irq)
    have "interrupts (irq # irqs) s = Returns (s1, [(obs, n)])"
      using h r by (simp add: irq)
    then show ?thesis using c n q by auto
  next
    case False
    with interruptHandler_step[OF Cons.prems, of sr dr] obtain s1 where
      h: "interruptHandler emptyCallback sr dr s = Returns (s1, None)"
      and t1: "transferring obs sz s1" and a1: "armed s1"
      and w1: "wordsLeft s1 = wordsLeft s - (if wordArrives (sr, dr) then 1 else 0)"
      by auto
    from Cons.IH[OF t1 a1] obtain s' events where
      r: "interrupts irqs s1 = Returns (s', events)"
      and k: "if list_ex overrunEnds irqs \<or> wordsLeft s1 \<le> length (filter wordArrives irqs)
            then quiescent s' \<and> (\<exists>n. events = [(obs, n)] \<and> n \<le> sz)
            else transferring obs sz s' \<and> armed s' \<and> events = []"
      by blast
    have c: "(list_ex overrunEnds (irq # irqs) \<or> wordsLeft s \<le> length (filter wordArrives (irq # irqs)))
          \<longleftrightarrow> (list_ex overrunEnds irqs \<or> wordsLeft s1 \<le> length (filter wordArrives irqs))"
      using False w w1 by (auto simp: irq)
    have "interrupts (irq # irqs) s = Returns (s', events)"
      using h r by (simp add: irq)
    then show ?thesis unfolding c using k by (intro exI[of _ s'] exI[of _ events] conjI)
  qed
qed

lemma startTransfer_armed:
  assumes "startTransfer obs writeBuffer readBuffer sz s = (0, s1)"
  shows "armed s1" and "wordsLeft s1 = unat sz div dataSize s"
proof -
  from startTransfer_success[OF assms] have
    s1: "s1 = s\<lparr>spiMasterBase_' := Some obs,
                readBuffer_' := readBuffer,
                writeBuffer_' := writeBuffer,
                size_' := sz,
                readPosition_' := 0,
                writePosition_' := 0,
                CR2 := CR2 s OR (SPI_CR2_TXEIE OR SPI_CR2_RXNEIE OR SPI_CR2_ERRIE)\<rparr>"
    by simp
  show "armed s1" unfolding s1 armed_def by simp
  have "CR2 s1 AND SPI_CR2_DS = CR2 s AND SPI_CR2_DS" unfolding s1 by simp
  then have ds: "dataSize s1 = dataSize s" by (rule dataSize_cong)
  show "wordsLeft s1 = unat sz div dataSize s" unfolding wordsLeft_def ds by (simp add: s1)
qed

subsection \<open>One call of the observer for each transfer\<close>

text \<open>
  Claim C4. After a successful \<open>startTransfer\<close> of \<open>sz\<close> bytes for the observer \<open>obs\<close>,
  whatever interrupts follow, the observer is called exactly once, with a number of
  bytes that is at most \<open>sz\<close>, and the driver is idle again, as soon as the hardware has
  signalled the end of the transfer; until then the transfer is in progress and the
  observer has not been called. For the interrupt-based driver the end is signalled by
  an overrun with the peripheral no longer busy, or by the arrival of the last of the
  \<open>sz / dataSize\<close> words; the calls are the events that the run of the interrupts returns,
  and the interrupts after the completion call nobody. For the DMA-based driver the end
  is signalled by the transfer-complete interrupt of the RX channel or by a
  transfer-error interrupt of either channel; the calls are the calls of
  \<open>transferCompleteEvent\<close> that the trace has gained since before \<open>startTransfer\<close>, and
  the interrupts are those of its two channels, each after some progress of the
  hardware.
\<close>

theorem one_transferCompleteEvent:
  "(startTransfer obs writeBuffer readBuffer sz s = (0, s1) \<longrightarrow>
      (\<exists>s2 events. interrupts irqs s1 = Returns (s2, events) \<and>
         (if list_ex overrunEnds irqs \<or> unat sz div dataSize s \<le> length (filter wordArrives irqs)
          then \<not> isTransferInProgress s2 \<and> (\<exists>n. events = [(obs, n)] \<and> n \<le> sz)
          else isTransferInProgress s2 \<and> events = []))) \<and>
   (dma_ready d m \<and> dma_startTransfer obs writeBuffer readBuffer sz d m = Returns (0, d1, m1) \<longrightarrow>
      (\<exists>d2 m2. dma_interrupts evs d1 m1 = Returns (d2, m2) \<and>
         (if list_ex endsTransfer evs
          then \<not> dma_isTransferInProgress d2 \<and>
               (\<exists>n. transferCompleteEvents (trace m2)
                      = transferCompleteEvents (trace m) @ [(obs, n)] \<and> n \<le> sz)
          else dma_isTransferInProgress d2 \<and>
               transferCompleteEvents (trace m2) = transferCompleteEvents (trace m))))"
proof (intro conjI impI)
  assume st: "startTransfer obs writeBuffer readBuffer sz s = (0, s1)"
  from startTransfer_transferring[OF st] have t: "transferring obs sz s1" .
  note a = startTransfer_armed[OF st]
  from interrupts_completion[OF t a(1), of irqs] obtain s2 events where
    r: "interrupts irqs s1 = Returns (s2, events)"
    and k: "if list_ex overrunEnds irqs \<or> wordsLeft s1 \<le> length (filter wordArrives irqs)
            then quiescent s2 \<and> (\<exists>n. events = [(obs, n)] \<and> n \<le> sz)
            else transferring obs sz s2 \<and> armed s2 \<and> events = []"
    by blast
  have q: "\<not> isTransferInProgress x" if "quiescent x" for x
    using that by (simp add: quiescent_def isTransferInProgress_def)
  have p: "isTransferInProgress x" if "transferring obs sz x" for x
    using that by (simp add: transferring_def isTransferInProgress_def)
  have "if list_ex overrunEnds irqs \<or> unat sz div dataSize s \<le> length (filter wordArrives irqs)
          then \<not> isTransferInProgress s2 \<and> (\<exists>n. events = [(obs, n)] \<and> n \<le> sz)
          else isTransferInProgress s2 \<and> events = []"
  proof (cases "list_ex overrunEnds irqs \<or> unat sz div dataSize s \<le> length (filter wordArrives irqs)")
    case True
    then show ?thesis using k q[of s2] unfolding a(2) by simp
  next
    case False
    then show ?thesis using k p[of s2] unfolding a(2) by simp
  qed
  with r show "\<exists>s2 events. interrupts irqs s1 = Returns (s2, events) \<and>
         (if list_ex overrunEnds irqs \<or> unat sz div dataSize s \<le> length (filter wordArrives irqs)
          then \<not> isTransferInProgress s2 \<and> (\<exists>n. events = [(obs, n)] \<and> n \<le> sz)
          else isTransferInProgress s2 \<and> events = [])"
    by (intro exI[of _ s2] exI[of _ events] conjI)
next
  assume "dma_ready d m \<and> dma_startTransfer obs writeBuffer readBuffer sz d m = Returns (0, d1, m1)"
  then have r: "dma_ready d m"
    and s: "dma_startTransfer obs writeBuffer readBuffer sz d m = Returns (0, d1, m1)"
    by simp_all
  from dma_startTransfer_busy[OF r s] have b: "dma_busy obs sz d1 m1"
    and e: "transferCompleteEvents (trace m1) = transferCompleteEvents (trace m)"
    by simp_all
  from dma_interrupts_busy[OF b, of evs] obtain d2 m2 where
    i: "dma_interrupts evs d1 m1 = Returns (d2, m2)"
    and k: "if list_ex endsTransfer evs
      then \<not> dma_isTransferInProgress d2 \<and>
           (\<exists>n. transferCompleteEvents (trace m2) = transferCompleteEvents (trace m1) @ [(obs, n)] \<and>
                n \<le> sz)
      else dma_busy obs sz d2 m2 \<and>
           transferCompleteEvents (trace m2) = transferCompleteEvents (trace m1)"
    by blast
  have p: "dma_isTransferInProgress x" if "dma_busy obs sz x y" for x y
    using that by (simp add: dma_busy_def dma_isTransferInProgress_def)
  have "if list_ex endsTransfer evs
          then \<not> dma_isTransferInProgress d2 \<and>
               (\<exists>n. transferCompleteEvents (trace m2)
                      = transferCompleteEvents (trace m) @ [(obs, n)] \<and> n \<le> sz)
          else dma_isTransferInProgress d2 \<and>
               transferCompleteEvents (trace m2) = transferCompleteEvents (trace m)"
  proof (cases "list_ex endsTransfer evs")
    case True
    then show ?thesis using k unfolding e by simp
  next
    case False
    then show ?thesis using k p[of d2 m2] unfolding e by simp
  qed
  with i show "\<exists>d2 m2. dma_interrupts evs d1 m1 = Returns (d2, m2) \<and>
         (if list_ex endsTransfer evs
          then \<not> dma_isTransferInProgress d2 \<and>
               (\<exists>n. transferCompleteEvents (trace m2)
                      = transferCompleteEvents (trace m) @ [(obs, n)] \<and> n \<le> sz)
          else dma_isTransferInProgress d2 \<and>
               transferCompleteEvents (trace m2) = transferCompleteEvents (trace m))"
    by (intro exI[of _ d2] exI[of _ m2] conjI)
qed

theorem one_transferCompleteEvent_witness:
  "(\<exists>s1 s2 n. startTransfer 1 0x20000100 0x20000000 10 configured16 = (0, s1) \<and>
       interrupts fiveHalfwords s1 = Returns (s2, [(1, n)]) \<and> n \<le> 10 \<and>
       \<not> isTransferInProgress s2) \<and>
   (\<exists>s1 s2 n. startTransfer 1 0x20000100 0x20000000 10 configured16 = (0, s1) \<and>
       interrupts [(SPI_SR_TXE, 0), (SPI_SR_RXNE, 0x4939), (SPI_SR_OVR, 0), (SPI_SR_RXNE, 0x376a)] s1
         = Returns (s2, [(1, n)]) \<and> n \<le> 10 \<and> \<not> isTransferInProgress s2) \<and>
   (\<exists>s1 s2. startTransfer 1 0x20000100 0x20000000 10 configured16 = (0, s1) \<and>
       interrupts [(SPI_SR_TXE, 0), (SPI_SR_RXNE, 0x4939), (SPI_SR_OVR OR SPI_SR_BSY, 0)] s1
         = Returns (s2, []) \<and> isTransferInProgress s2) \<and>
   dma_ready (dma_idle 8) reservedMachine \<and>
   (\<exists>d1 m1 d2 m2 n.
       dma_startTransfer 1 0x20000100 0x20000000 4 (dma_idle 8) reservedMachine
         = Returns (0, d1, m1) \<and>
       dma_interrupts [([(3, 4), (2, 4)], TransferComplete, TxDma), ([], TransferComplete, RxDma),
                       ([], TransferError, TxDma)]
           d1 m1 = Returns (d2, m2) \<and>
       \<not> dma_isTransferInProgress d2 \<and>
       transferCompleteEvents (trace m2) = [(1, n)] \<and> n \<le> 4) \<and>
   (\<exists>d1 m1 d2 m2.
       dma_startTransfer 1 0x20000100 0x20000000 4 (dma_idle 8) reservedMachine
         = Returns (0, d1, m1) \<and>
       dma_interrupts [([(3, 4), (2, 3)], TransferComplete, TxDma)] d1 m1 = Returns (d2, m2) \<and>
       dma_isTransferInProgress d2 \<and> transferCompleteEvents (trace m2) = [])"
proof -
  have h1: "isStarted configured16" by (simp add: configured16_def isStarted_def)
  have h2: "\<not> isTransferInProgress configured16"
    by (simp add: configured16_def isTransferInProgress_def constructed_def)
  have wl: "getWordLength (ucast (CR2 configured16)) = 16"
    by (simp add: configured16_def getWordLength_def SPI_CR2_DS_def SPI_CR2_DS_Pos_def)
  have ds: "dataSize configured16 = 2" unfolding dataSize_def wl by simp
  define s1 where "s1 = configured16\<lparr>spiMasterBase_' := Some 1,
                readBuffer_' := 0x20000000,
                writeBuffer_' := 0x20000100,
                size_' := 10,
                readPosition_' := 0,
                writePosition_' := 0,
                CR2 := CR2 configured16 OR (SPI_CR2_TXEIE OR SPI_CR2_RXNEIE OR SPI_CR2_ERRIE)\<rparr>"
  have st: "startTransfer 1 0x20000100 0x20000000 10 configured16 = (0, s1)"
    unfolding startTransfer_idle[OF h1 h2] s1_def using ds by simp
  have w: "unat (10 :: size_t) div dataSize configured16 = 5" unfolding ds by simp
  have c1: "\<not> list_ex overrunEnds fiveHalfwords"
    "length (filter wordArrives fiveHalfwords) = 5"
    by (simp_all add: fiveHalfwords_def overrunEnds_def wordArrives_def SPI_SR_OVR_def
        SPI_SR_TXE_def SPI_SR_RXNE_def SPI_SR_BSY_def)
  have c2: "list_ex overrunEnds
      [(SPI_SR_TXE, 0), (SPI_SR_RXNE, 0x4939), (SPI_SR_OVR, 0), (SPI_SR_RXNE, 0x376a)]"
    by (simp add: overrunEnds_def SPI_SR_OVR_def SPI_SR_TXE_def SPI_SR_RXNE_def SPI_SR_BSY_def)
  have c3: "\<not> list_ex overrunEnds
      [(SPI_SR_TXE, 0), (SPI_SR_RXNE, 0x4939), (SPI_SR_OVR OR SPI_SR_BSY, 0)]"
    "length (filter wordArrives
      [(SPI_SR_TXE, 0), (SPI_SR_RXNE, 0x4939), (SPI_SR_OVR OR SPI_SR_BSY, 0)]) = 1"
    by (simp_all add: overrunEnds_def wordArrives_def SPI_SR_OVR_def SPI_SR_TXE_def
        SPI_SR_RXNE_def SPI_SR_BSY_def)
  have k1: "list_ex overrunEnds fiveHalfwords \<or>
      unat (10 :: size_t) div dataSize configured16 \<le> length (filter wordArrives fiveHalfwords)"
    unfolding w c1(2) by simp
  from one_transferCompleteEvent [of 1 "0x20000100" "0x20000000" 10 configured16 s1 fiveHalfwords,
      THEN conjunct1, rule_format, OF st, unfolded if_P[OF k1]]
  have part1: "\<exists>s1 s2 n. startTransfer 1 0x20000100 0x20000000 10 configured16 = (0, s1) \<and>
       interrupts fiveHalfwords s1 = Returns (s2, [(1, n)]) \<and> n \<le> 10 \<and>
       \<not> isTransferInProgress s2"
    using st by blast
  have k2: "list_ex overrunEnds
        [(SPI_SR_TXE, 0), (SPI_SR_RXNE, 0x4939), (SPI_SR_OVR, 0), (SPI_SR_RXNE, 0x376a)] \<or>
      unat (10 :: size_t) div dataSize configured16 \<le> length (filter wordArrives
        [(SPI_SR_TXE, 0), (SPI_SR_RXNE, 0x4939), (SPI_SR_OVR, 0), (SPI_SR_RXNE, 0x376a)])"
    using c2 by (rule disjI1)
  from one_transferCompleteEvent [of 1 "0x20000100" "0x20000000" 10 configured16 s1
      "[(SPI_SR_TXE, 0), (SPI_SR_RXNE, 0x4939), (SPI_SR_OVR, 0), (SPI_SR_RXNE, 0x376a)]",
      THEN conjunct1, rule_format, OF st, unfolded if_P[OF k2]]
  have part2: "\<exists>s1 s2 n. startTransfer 1 0x20000100 0x20000000 10 configured16 = (0, s1) \<and>
       interrupts [(SPI_SR_TXE, 0), (SPI_SR_RXNE, 0x4939), (SPI_SR_OVR, 0), (SPI_SR_RXNE, 0x376a)] s1
         = Returns (s2, [(1, n)]) \<and> n \<le> 10 \<and> \<not> isTransferInProgress s2"
    using st by blast
  have k3: "\<not> (list_ex overrunEnds
        [(SPI_SR_TXE, 0), (SPI_SR_RXNE, 0x4939), (SPI_SR_OVR OR SPI_SR_BSY, 0)] \<or>
      unat (10 :: size_t) div dataSize configured16 \<le> length (filter wordArrives
        [(SPI_SR_TXE, 0), (SPI_SR_RXNE, 0x4939), (SPI_SR_OVR OR SPI_SR_BSY, 0)]))"
    using c3(1) unfolding w c3(2) by simp
  from one_transferCompleteEvent [of 1 "0x20000100" "0x20000000" 10 configured16 s1
      "[(SPI_SR_TXE, 0), (SPI_SR_RXNE, 0x4939), (SPI_SR_OVR OR SPI_SR_BSY, 0)]",
      THEN conjunct1, rule_format, OF st, unfolded if_not_P[OF k3]]
  have part3: "\<exists>s1 s2. startTransfer 1 0x20000100 0x20000000 10 configured16 = (0, s1) \<and>
       interrupts [(SPI_SR_TXE, 0), (SPI_SR_RXNE, 0x4939), (SPI_SR_OVR OR SPI_SR_BSY, 0)] s1
         = Returns (s2, []) \<and> isTransferInProgress s2"
    using st by blast
  have r: "dma_ready (dma_idle 8) reservedMachine"
    by (rule dma_idle_ready) (simp_all add: minWordLength_def maxWordLength_def)
  have dds: "dma_dataSize (dma_idle 8) = 1" by (simp add: dma_dataSize_def dma_idle_def)
  have ok: "dma_request_ok 0x20000100 0x20000000 4 (dma_idle 8)"
    unfolding dma_request_ok_def dds by (simp add: aligned_def)
  have small: "unat (4 :: size_t) div dma_dataSize (dma_idle 8) \<le> 65535" unfolding dds by simp
  from dma_startTransfer_ok[OF r ok small, of 1] obtain d1 m1 where
    dst: "dma_startTransfer 1 0x20000100 0x20000000 4 (dma_idle 8) reservedMachine
            = Returns (0, d1, m1)"
    by blast
  have t0: "transferCompleteEvents (trace reservedMachine) = []"
    by (simp add: reservedMachine_def)
  have e1: "list_ex endsTransfer [([(3, 4), (2, 4)], TransferComplete, TxDma),
        ([], TransferComplete, RxDma), ([], TransferError, TxDma)]"
    by (simp add: endsTransfer_def)
  have e2: "\<not> list_ex endsTransfer [([(3, 4), (2, 3)], TransferComplete, TxDma)]"
    by (simp add: endsTransfer_def)
  from one_transferCompleteEvent [of 1 "0x20000100" "0x20000000" 4 configured16 s1 fiveHalfwords
      "dma_idle 8" reservedMachine d1 m1
      "[([(3, 4), (2, 4)], TransferComplete, TxDma), ([], TransferComplete, RxDma),
        ([], TransferError, TxDma)]", THEN conjunct2, rule_format, OF conjI[OF r dst],
      unfolded if_P[OF e1] t0 append_Nil]
  have part4: "\<exists>d1 m1 d2 m2 n.
       dma_startTransfer 1 0x20000100 0x20000000 4 (dma_idle 8) reservedMachine
         = Returns (0, d1, m1) \<and>
       dma_interrupts [([(3, 4), (2, 4)], TransferComplete, TxDma), ([], TransferComplete, RxDma),
                       ([], TransferError, TxDma)]
           d1 m1 = Returns (d2, m2) \<and>
       \<not> dma_isTransferInProgress d2 \<and>
       transferCompleteEvents (trace m2) = [(1, n)] \<and> n \<le> 4"
    using dst by blast
  from one_transferCompleteEvent [of 1 "0x20000100" "0x20000000" 4 configured16 s1 fiveHalfwords
      "dma_idle 8" reservedMachine d1 m1
      "[([(3, 4), (2, 3)], TransferComplete, TxDma)]", THEN conjunct2, rule_format,
      OF conjI[OF r dst], unfolded if_not_P[OF e2] t0]
  have part5: "\<exists>d1 m1 d2 m2.
       dma_startTransfer 1 0x20000100 0x20000000 4 (dma_idle 8) reservedMachine
         = Returns (0, d1, m1) \<and>
       dma_interrupts [([(3, 4), (2, 3)], TransferComplete, TxDma)] d1 m1 = Returns (d2, m2) \<and>
       dma_isTransferInProgress d2 \<and> transferCompleteEvents (trace m2) = []"
    using dst by blast
  from part1 part2 part3 r part4 part5 show ?thesis by (intro conjI)
qed

subsection \<open>The driver that the observer finds\<close>

text \<open>
  Claim C2. When the interrupt handler of the interrupt-based driver finishes a
  transfer, the observer is called on a driver that has no observer, no size, no
  positions and no buffers, whose three interrupts are disabled and that is idle: the
  result of the handler is what the
  observer makes of that driver, whatever the observer does. In particular
  \<open>startTransfer\<close> succeeds on it for every size that is a positive multiple of the word
  size, and the handler whose observer starts such a transfer from within its callback
  returns with the new transfer in progress. When \<open>eventHandler\<close> of the DMA-based driver
  finishes a transfer, the observer is called, as the last effect, on a driver that has
  the size 0 and no observer and that is idle, with both channels stopped: the result
  of \<open>eventHandler\<close> is what the observer makes of that driver and machine. In
  particular \<open>startTransfer\<close> succeeds there for every request that the channels accept,
  with at most 65535 words, and \<open>eventHandler\<close> with an observer that starts such a
  transfer from within its callback returns with it.
\<close>

theorem completion_clears_state:
  "(isStarted s \<and> interruptHandler emptyCallback sr dr s = Returns (s0, Some (obs, n)) \<longrightarrow>
      spiMasterBase_' s0 = None \<and> size_' s0 = 0 \<and> readPosition_' s0 = 0 \<and>
      writePosition_' s0 = 0 \<and> readBuffer_' s0 = nullptr \<and> writeBuffer_' s0 = nullptr \<and>
      CR2 s0 AND SPI_CR2_TXEIE = 0 \<and> CR2 s0 AND SPI_CR2_RXNEIE = 0 \<and>
      CR2 s0 AND SPI_CR2_ERRIE = 0 \<and> \<not> isTransferInProgress s0 \<and>
      interruptHandler transferCompleteEvent sr dr s =
        (case transferCompleteEvent obs n s0 of
           Fault f \<Rightarrow> Fault f
         | Returns s1 \<Rightarrow> Returns (s1, Some (obs, n))) \<and>
      (sz \<noteq> 0 \<and> dataSize s0 dvd unat sz \<longrightarrow>
         (\<exists>s2. startTransfer obs' writeBuffer readBuffer sz s0 = (0, s2) \<and>
               isTransferInProgress s2 \<and>
               interruptHandler (restartCallback obs' writeBuffer readBuffer sz) sr dr s
                 = Returns (s2, Some (obs, n))))) \<and>
   (dma_busy obs sz0 d m \<longrightarrow>
      (\<exists>m0. (\<forall>dmaTransferCompleteEvent.
                eventHandler dmaTransferCompleteEvent transactionsLeft d m =
                  dmaTransferCompleteEvent obs (sz0 - transactionsLeft * of_nat (dma_dataSize d))
                    (d\<lparr>dma_size_' := 0, dma_spiMasterBase_' := None\<rparr>) m0) \<and>
          last (trace m0)
            = TransferCompleteEvent obs (sz0 - transactionsLeft * of_nat (dma_dataSize d)) \<and>
          \<not> enabled (channels m0 (rxDmaChannel_' d)) \<and>
          \<not> enabled (channels m0 (txDmaChannel_' d)) \<and>
          \<not> dma_isTransferInProgress (d\<lparr>dma_size_' := 0, dma_spiMasterBase_' := None\<rparr>) \<and>
          (dma_request_ok writeBuffer readBuffer sz d \<and> unat sz div dma_dataSize d \<le> 65535 \<longrightarrow>
             (\<exists>d2 m2. dma_startTransfer obs' writeBuffer readBuffer sz
                          (d\<lparr>dma_size_' := 0, dma_spiMasterBase_' := None\<rparr>) m0
                        = Returns (0, d2, m2) \<and>
                      dma_isTransferInProgress d2 \<and>
                      eventHandler (dma_restartCallback obs' writeBuffer readBuffer sz)
                          transactionsLeft d m
                        = Returns (d2, m2)))))"
proof (rule conjI; rule impI)
  assume "isStarted s \<and> interruptHandler emptyCallback sr dr s = Returns (s0, Some (obs, n))"
  then have st: "isStarted s"
    and h: "interruptHandler emptyCallback sr dr s = Returns (s0, Some (obs, n))"
    by simp_all
  note c = interruptHandler_completion[OF h]
  from c st have idle: "isStarted s0" "\<not> isTransferInProgress s0" by simp_all
  have cb: "interruptHandler cb sr dr s =
        (case cb obs n s0 of
           Fault f \<Rightarrow> Fault f
         | Returns s1 \<Rightarrow> Returns (s1, Some (obs, n)))" for cb
    unfolding interruptHandler_callback[of cb] h by simp
  have re: "\<exists>s2. startTransfer obs' writeBuffer readBuffer sz s0 = (0, s2) \<and>
               isTransferInProgress s2 \<and>
               interruptHandler (restartCallback obs' writeBuffer readBuffer sz) sr dr s
                 = Returns (s2, Some (obs, n))"
    if ok: "sz \<noteq> 0 \<and> dataSize s0 dvd unat sz"
  proof -
    from ok startTransfer_idle[OF idle, of obs' writeBuffer readBuffer sz] obtain s2 where
      s2: "startTransfer obs' writeBuffer readBuffer sz s0 = (0, s2)" by simp
    from startTransfer_transferring[OF s2] have "isTransferInProgress s2"
      by (simp add: transferring_def isTransferInProgress_def)
    moreover have "interruptHandler (restartCallback obs' writeBuffer readBuffer sz) sr dr s
                 = Returns (s2, Some (obs, n))"
      unfolding cb by (simp add: restartCallback_def s2)
    ultimately show ?thesis using s2 by blast
  qed
  from c idle cb[of transferCompleteEvent] re
  show "spiMasterBase_' s0 = None \<and> size_' s0 = 0 \<and> readPosition_' s0 = 0 \<and>
      writePosition_' s0 = 0 \<and> readBuffer_' s0 = nullptr \<and> writeBuffer_' s0 = nullptr \<and>
      CR2 s0 AND SPI_CR2_TXEIE = 0 \<and> CR2 s0 AND SPI_CR2_RXNEIE = 0 \<and>
      CR2 s0 AND SPI_CR2_ERRIE = 0 \<and> \<not> isTransferInProgress s0 \<and>
      interruptHandler transferCompleteEvent sr dr s =
        (case transferCompleteEvent obs n s0 of
           Fault f \<Rightarrow> Fault f
         | Returns s1 \<Rightarrow> Returns (s1, Some (obs, n))) \<and>
      (sz \<noteq> 0 \<and> dataSize s0 dvd unat sz \<longrightarrow>
         (\<exists>s2. startTransfer obs' writeBuffer readBuffer sz s0 = (0, s2) \<and>
               isTransferInProgress s2 \<and>
               interruptHandler (restartCallback obs' writeBuffer readBuffer sz) sr dr s
                 = Returns (s2, Some (obs, n))))"
    by (intro conjI impI) simp_all
next
  assume b: "dma_busy obs sz0 d m"
  define d0 where "d0 = d\<lparr>dma_size_' := 0, dma_spiMasterBase_' := None\<rparr>"
  define k where "k = sz0 - transactionsLeft * of_nat (dma_dataSize d)"
  define m0 where "m0 = atCompletion obs k d m"
  have ev: "eventHandler cb transactionsLeft d m = cb obs k d0 m0" for cb
    unfolding k_def d0_def m0_def by (rule eventHandler_busy(1)[OF b])
  have r: "dma_ready d0 m0" unfolding d0_def m0_def by (rule eventHandler_busy(2)[OF b])
  have la: "last (trace m0) = TransferCompleteEvent obs k"
    by (simp add: m0_def atCompletion_fields)
  have off: "\<not> enabled (channels m0 (rxDmaChannel_' d))" "\<not> enabled (channels m0 (txDmaChannel_' d))"
    by (simp_all add: m0_def atCompletion_fields)
  have idle: "\<not> dma_isTransferInProgress d0" by (simp add: d0_def dma_isTransferInProgress_def)
  have dds: "dma_dataSize d0 = dma_dataSize d" by (simp add: d0_def dma_dataSize_def)
  have rq: "dma_request_ok writeBuffer readBuffer sz d0 = dma_request_ok writeBuffer readBuffer sz d"
    by (simp add: dma_request_ok_def dds) (simp add: d0_def)
  have re: "\<exists>d2 m2. dma_startTransfer obs' writeBuffer readBuffer sz d0 m0 = Returns (0, d2, m2) \<and>
                      dma_isTransferInProgress d2 \<and>
                      eventHandler (dma_restartCallback obs' writeBuffer readBuffer sz)
                          transactionsLeft d m
                        = Returns (d2, m2)"
    if "dma_request_ok writeBuffer readBuffer sz d \<and> unat sz div dma_dataSize d \<le> 65535"
  proof -
    from that have ok: "dma_request_ok writeBuffer readBuffer sz d0"
      and small: "unat sz div dma_dataSize d0 \<le> 65535" by (simp_all add: rq dds)
    from dma_startTransfer_ok[OF r ok small, of obs'] obtain m2 where
      s2: "dma_startTransfer obs' writeBuffer readBuffer sz d0 m0 =
             Returns (0, d0\<lparr>dma_spiMasterBase_' := Some obs', dma_size_' := sz\<rparr>, m2)"
      by blast
    from ok have "sz \<noteq> 0" by (simp add: dma_request_ok_def)
    then have "dma_isTransferInProgress (d0\<lparr>dma_spiMasterBase_' := Some obs', dma_size_' := sz\<rparr>)"
      by (simp add: dma_isTransferInProgress_def)
    moreover have "eventHandler (dma_restartCallback obs' writeBuffer readBuffer sz)
                          transactionsLeft d m
                        = Returns (d0\<lparr>dma_spiMasterBase_' := Some obs', dma_size_' := sz\<rparr>, m2)"
      unfolding ev by (simp add: dma_restartCallback_def s2)
    ultimately show ?thesis using s2 by blast
  qed
  have all: "\<forall>dmaTransferCompleteEvent.
                eventHandler dmaTransferCompleteEvent transactionsLeft d m =
                  dmaTransferCompleteEvent obs k d0 m0"
    using ev by simp
  from all la off idle re
  show "\<exists>m0. (\<forall>dmaTransferCompleteEvent.
                eventHandler dmaTransferCompleteEvent transactionsLeft d m =
                  dmaTransferCompleteEvent obs (sz0 - transactionsLeft * of_nat (dma_dataSize d))
                    (d\<lparr>dma_size_' := 0, dma_spiMasterBase_' := None\<rparr>) m0) \<and>
          last (trace m0)
            = TransferCompleteEvent obs (sz0 - transactionsLeft * of_nat (dma_dataSize d)) \<and>
          \<not> enabled (channels m0 (rxDmaChannel_' d)) \<and>
          \<not> enabled (channels m0 (txDmaChannel_' d)) \<and>
          \<not> dma_isTransferInProgress (d\<lparr>dma_size_' := 0, dma_spiMasterBase_' := None\<rparr>) \<and>
          (dma_request_ok writeBuffer readBuffer sz d \<and> unat sz div dma_dataSize d \<le> 65535 \<longrightarrow>
             (\<exists>d2 m2. dma_startTransfer obs' writeBuffer readBuffer sz
                          (d\<lparr>dma_size_' := 0, dma_spiMasterBase_' := None\<rparr>) m0
                        = Returns (0, d2, m2) \<and>
                      dma_isTransferInProgress d2 \<and>
                      eventHandler (dma_restartCallback obs' writeBuffer readBuffer sz)
                          transactionsLeft d m
                        = Returns (d2, m2)))"
    unfolding k_def[symmetric] d0_def[symmetric]
    by (intro exI[of _ m0] conjI impI) simp_all
qed

theorem completion_clears_state_witness:
  "(\<exists>s1 s0 s2. startTransfer 1 0x20000100 0x20000000 2 configured16 = (0, s1) \<and> isStarted s1 \<and>
       interruptHandler emptyCallback SPI_SR_RXNE 0x4939 s1 = Returns (s0, Some (1, 2)) \<and>
       spiMasterBase_' s0 = None \<and> size_' s0 = 0 \<and> dataSize s0 = 2 \<and>
       startTransfer 7 0x20000100 0x20000000 4 s0 = (0, s2) \<and> isTransferInProgress s2 \<and>
       interruptHandler (restartCallback 7 0x20000100 0x20000000 4) SPI_SR_RXNE 0x4939 s1
         = Returns (s2, Some (1, 2))) \<and>
   dma_busy 1 10 dma_busy16 busyMachine \<and>
   dma_request_ok 0x20000100 0x20000000 4 dma_busy16 \<and>
   (\<exists>m0 d2 m2. eventHandler dma_emptyCallback 3 dma_busy16 busyMachine
        = Returns (dma_busy16\<lparr>dma_size_' := 0, dma_spiMasterBase_' := None\<rparr>, m0) \<and>
      last (trace m0) = TransferCompleteEvent 1 4 \<and>
      dma_startTransfer 7 0x20000100 0x20000000 4
        (dma_busy16\<lparr>dma_size_' := 0, dma_spiMasterBase_' := None\<rparr>) m0 = Returns (0, d2, m2) \<and>
      dma_isTransferInProgress d2 \<and>
      eventHandler (dma_restartCallback 7 0x20000100 0x20000000 4) 3 dma_busy16 busyMachine
        = Returns (d2, m2))"
proof -
  have h1: "isStarted configured16" by (simp add: configured16_def isStarted_def)
  have h2: "\<not> isTransferInProgress configured16"
    by (simp add: configured16_def isTransferInProgress_def constructed_def)
  have wl: "getWordLength (ucast (CR2 configured16)) = 16"
    by (simp add: configured16_def getWordLength_def SPI_CR2_DS_def SPI_CR2_DS_Pos_def)
  have ds: "dataSize configured16 = 2" unfolding dataSize_def wl by simp
  define s1 where "s1 = configured16\<lparr>spiMasterBase_' := Some 1,
                readBuffer_' := 0x20000000,
                writeBuffer_' := 0x20000100,
                size_' := 2,
                readPosition_' := 0,
                writePosition_' := 0,
                CR2 := CR2 configured16 OR (SPI_CR2_TXEIE OR SPI_CR2_RXNEIE OR SPI_CR2_ERRIE)\<rparr>"
  have st: "startTransfer 1 0x20000100 0x20000000 2 configured16 = (0, s1)"
    unfolding startTransfer_idle[OF h1 h2] s1_def using ds by simp
  have started: "isStarted s1" by (simp add: s1_def configured16_def isStarted_def)
  have "getWordLength (ucast (CR2 s1)) = getWordLength (ucast (CR2 configured16))"
    by (rule getWordLength_cong) (simp add: s1_def)
  then have wl1: "getWordLength (ucast (CR2 s1)) = 16" using wl by simp
  then have ds1: "dataSize s1 = 2" unfolding dataSize_def by simp
  have rc: "receiving 1 0x20000000 (memory configured16) 1 [] s1"
    using wl1 by (simp add: receiving_def s1_def nullptr_def)
  have ovr: "\<forall>irq \<in> set [(SPI_SR_RXNE, 0x4939 :: 32 word)]. fst irq AND SPI_SR_OVR = 0"
    by (simp add: SPI_SR_OVR_def SPI_SR_RXNE_def)
  have len: "length ([] :: 16 word list) + length (received [(SPI_SR_RXNE, 0x4939)]) = 1"
    by (simp add: SPI_SR_RXNE_def)
  from interrupts_receiving_complete[OF rc ovr len]
  obtain s0 where run: "interrupts [(SPI_SR_RXNE, 0x4939)] s1 = Returns (s0, [(1, 2)])" by auto
  have ih: "interruptHandler emptyCallback SPI_SR_RXNE 0x4939 s1 = Returns (s0, Some (1, 2))"
    using run
    by (auto split: outcome.splits prod.splits option.splits)
  have ds0: "dataSize s0 = 2" using interruptHandler_completion[OF ih] ds1 by simp
  have ok0: "(4 :: size_t) \<noteq> 0 \<and> dataSize s0 dvd unat (4 :: size_t)" unfolding ds0 by simp
  note both = completion_clears_state [of s1 SPI_SR_RXNE "0x4939" s0 1 2 emptyCallback 4 7
      "0x20000100" "0x20000000" 10 dma_busy16 busyMachine 3]
  note i = both[THEN conjunct1, rule_format, OF conjI[OF started ih]]
  from i have f: "spiMasterBase_' s0 = None" "size_' s0 = 0" by simp_all
  from i have "(4 :: size_t) \<noteq> 0 \<and> dataSize s0 dvd unat (4 :: size_t) \<longrightarrow>
         (\<exists>s2. startTransfer 7 0x20000100 0x20000000 4 s0 = (0, s2) \<and>
               isTransferInProgress s2 \<and>
               interruptHandler (restartCallback 7 0x20000100 0x20000000 4) SPI_SR_RXNE 0x4939 s1
                 = Returns (s2, Some (1, 2)))"
    by (elim conjE)
  with ok0 obtain s2 where re: "startTransfer 7 0x20000100 0x20000000 4 s0 = (0, s2)"
    "isTransferInProgress s2"
    "interruptHandler (restartCallback 7 0x20000100 0x20000000 4) SPI_SR_RXNE 0x4939 s1
                 = Returns (s2, Some (1, 2))"
    by blast
  have part1: "\<exists>s1 s0 s2. startTransfer 1 0x20000100 0x20000000 2 configured16 = (0, s1) \<and>
       isStarted s1 \<and>
       interruptHandler emptyCallback SPI_SR_RXNE 0x4939 s1 = Returns (s0, Some (1, 2)) \<and>
       spiMasterBase_' s0 = None \<and> size_' s0 = 0 \<and> dataSize s0 = 2 \<and>
       startTransfer 7 0x20000100 0x20000000 4 s0 = (0, s2) \<and> isTransferInProgress s2 \<and>
       interruptHandler (restartCallback 7 0x20000100 0x20000000 4) SPI_SR_RXNE 0x4939 s1
         = Returns (s2, Some (1, 2))"
    using st started ih f ds0 re by (intro exI[of _ s1] exI[of _ s0] exI[of _ s2] conjI)
  let ?d0 = "dma_busy16\<lparr>dma_size_' := 0, dma_spiMasterBase_' := None\<rparr>"
  have dds: "dma_dataSize dma_busy16 = 2"
    by (simp_all add: dma_dataSize_def dma_busy16_def)
  have ok: "dma_request_ok 0x20000100 0x20000000 4 dma_busy16"
    unfolding dma_request_ok_def dds
    by (simp add: aligned_def nullptr_def dma_busy16_def dma_constructed_def)
  have small: "unat (4 :: size_t) div dma_dataSize dma_busy16 \<le> 65535" unfolding dds by simp
  have c: "(10 :: size_t) - 3 * of_nat 2 = 4" by simp
  note j = both[THEN conjunct2, rule_format, OF dma_busy16_busy, unfolded dds c]
  from j obtain m0 where
    all: "\<forall>dmaTransferCompleteEvent.
            eventHandler dmaTransferCompleteEvent 3 dma_busy16 busyMachine
              = dmaTransferCompleteEvent 1 4 ?d0 m0"
    and la: "last (trace m0) = TransferCompleteEvent 1 4"
    and imp: "dma_request_ok 0x20000100 0x20000000 4 dma_busy16 \<and>
              unat (4 :: size_t) div 2 \<le> 65535 \<longrightarrow>
             (\<exists>d2 m2. dma_startTransfer 7 0x20000100 0x20000000 4 ?d0 m0 = Returns (0, d2, m2) \<and>
                      dma_isTransferInProgress d2 \<and>
                      eventHandler (dma_restartCallback 7 0x20000100 0x20000000 4) 3 dma_busy16
                          busyMachine
                        = Returns (d2, m2))"
    by (elim exE conjE)
  from all have e0: "eventHandler dma_emptyCallback 3 dma_busy16 busyMachine = Returns (?d0, m0)"
    by simp
  from imp ok obtain d2 m2 where
    "dma_startTransfer 7 0x20000100 0x20000000 4 ?d0 m0 = Returns (0, d2, m2)"
    "dma_isTransferInProgress d2"
    "eventHandler (dma_restartCallback 7 0x20000100 0x20000000 4) 3 dma_busy16 busyMachine
       = Returns (d2, m2)"
    by auto
  with e0 la
  have part2: "\<exists>m0 d2 m2. eventHandler dma_emptyCallback 3 dma_busy16 busyMachine
        = Returns (?d0, m0) \<and>
      last (trace m0) = TransferCompleteEvent 1 4 \<and>
      dma_startTransfer 7 0x20000100 0x20000000 4 ?d0 m0 = Returns (0, d2, m2) \<and>
      dma_isTransferInProgress d2 \<and>
      eventHandler (dma_restartCallback 7 0x20000100 0x20000000 4) 3 dma_busy16 busyMachine
        = Returns (d2, m2)"
    by (intro exI[of _ m0] exI[of _ d2] exI[of _ m2] conjI)
  from part1 dma_busy16_busy ok part2 show ?thesis by (intro conjI)
qed

subsection \<open>The order of the completion of the DMA-based driver\<close>



subsection \<open>The number of bytes that the DMA-based driver reports\<close>

text \<open>
  Claim C1, amended. During a transfer of \<open>sz\<close> bytes, each interrupt that ends the
  transfer makes the driver call the observer with \<open>sz - transactionsLeft * dataSize\<close>
  bytes, where \<open>dataSize\<close> is \<open>(wordLength + 8 - 1) / 8\<close>: \<open>transactionsLeft\<close> is 0 for the
  transfer-complete interrupt of the RX channel, the counter of the RX channel for a
  transfer-error interrupt of the RX channel, and the counter of the TX channel for a
  transfer-error interrupt of the TX channel. The subtraction does not wrap, as no
  counter exceeds the number of words of the transfer.
\<close>

theorem bytesTransferred_formula:
  assumes "dma_busy obs sz d m"
  shows
    "(\<exists>m1. (\<forall>dmaTransferCompleteEvent.
              DmaChannel_interruptHandler dmaTransferCompleteEvent TransferComplete
                  (rxDmaChannel_' d) d m
                = dmaTransferCompleteEvent obs sz
                    (d\<lparr>dma_size_' := 0, dma_spiMasterBase_' := None\<rparr>) m1) \<and>
        last (trace m1) = TransferCompleteEvent obs sz) \<and>
     (\<exists>m1 n. (\<forall>dmaTransferCompleteEvent.
              DmaChannel_interruptHandler dmaTransferCompleteEvent TransferError
                  (rxDmaChannel_' d) d m
                = dmaTransferCompleteEvent obs n
                    (d\<lparr>dma_size_' := 0, dma_spiMasterBase_' := None\<rparr>) m1) \<and>
        last (trace m1) = TransferCompleteEvent obs n \<and>
        n = sz - NDTR (channels m (rxDmaChannel_' d)) * of_nat (dma_dataSize d) \<and>
        unat n = unat sz - unat (NDTR (channels m (rxDmaChannel_' d))) * dma_dataSize d) \<and>
     (\<exists>m1 n. (\<forall>dmaTransferCompleteEvent.
              DmaChannel_interruptHandler dmaTransferCompleteEvent TransferError
                  (txDmaChannel_' d) d m
                = dmaTransferCompleteEvent obs n
                    (d\<lparr>dma_size_' := 0, dma_spiMasterBase_' := None\<rparr>) m1) \<and>
        last (trace m1) = TransferCompleteEvent obs n \<and>
        n = sz - NDTR (channels m (txDmaChannel_' d)) * of_nat (dma_dataSize d) \<and>
        unat n = unat sz - unat (NDTR (channels m (txDmaChannel_' d))) * dma_dataSize d)"
proof -
  have la: "last (trace (atCompletion obs n d m)) = TransferCompleteEvent obs n" for n
    by (simp add: atCompletion_fields)
  have e: "\<exists>m1 n. (\<forall>dmaTransferCompleteEvent.
              DmaChannel_interruptHandler dmaTransferCompleteEvent interrupt c d m
                = dmaTransferCompleteEvent obs n
                    (d\<lparr>dma_size_' := 0, dma_spiMasterBase_' := None\<rparr>) m1) \<and>
        last (trace m1) = TransferCompleteEvent obs n \<and>
        n = sz - (if interrupt = TransferComplete then 0 else NDTR (channels m c))
                   * of_nat (dma_dataSize d) \<and>
        unat n = unat sz - unat (if interrupt = TransferComplete then 0 else NDTR (channels m c))
                             * dma_dataSize d"
    if c: "c = rxDmaChannel_' d \<or> c = txDmaChannel_' d"
      and i: "interrupt = TransferError \<or> c = rxDmaChannel_' d" for interrupt c
  proof -
    define n where "n = sz - (if interrupt = TransferComplete then 0 else NDTR (channels m c))
                           * of_nat (dma_dataSize d)"
    note h = DmaChannel_interruptHandler_ends[OF assms c i, folded n_def]
    have "\<forall>dmaTransferCompleteEvent.
              DmaChannel_interruptHandler dmaTransferCompleteEvent interrupt c d m
                = dmaTransferCompleteEvent obs n
                    (d\<lparr>dma_size_' := 0, dma_spiMasterBase_' := None\<rparr>) (atCompletion obs n d m)"
      using h(1) by simp
    then show ?thesis using la[of n] h(3) n_def
      by (intro exI[of _ "atCompletion obs n d m"] exI[of _ n] conjI)
  qed
  from e[of "rxDmaChannel_' d" TransferComplete]
  have a: "\<exists>m1. (\<forall>dmaTransferCompleteEvent.
              DmaChannel_interruptHandler dmaTransferCompleteEvent TransferComplete
                  (rxDmaChannel_' d) d m
                = dmaTransferCompleteEvent obs sz
                    (d\<lparr>dma_size_' := 0, dma_spiMasterBase_' := None\<rparr>) m1) \<and>
        last (trace m1) = TransferCompleteEvent obs sz"
    by auto
  from e[of "rxDmaChannel_' d" TransferError] e[of "txDmaChannel_' d" TransferError] a
  show ?thesis by simp
qed

theorem bytesTransferred_formula_witness:
  "dma_busy 1 10 dma_busy16 busyMachine \<and> dma_dataSize dma_busy16 = 2 \<and>
   NDTR (channels busyMachine (rxDmaChannel_' dma_busy16)) = 3 \<and>
   NDTR (channels busyMachine (txDmaChannel_' dma_busy16)) = 1 \<and>
   (\<exists>d1 m1. DmaChannel_interruptHandler dma_emptyCallback TransferComplete 2 dma_busy16 busyMachine
              = Returns (d1, m1) \<and>
        last (trace m1) = TransferCompleteEvent 1 10) \<and>
   (\<exists>d1 m1. DmaChannel_interruptHandler dma_emptyCallback TransferError 2 dma_busy16 busyMachine
              = Returns (d1, m1) \<and>
        last (trace m1) = TransferCompleteEvent 1 4) \<and>
   (\<exists>d1 m1. DmaChannel_interruptHandler dma_emptyCallback TransferError 3 dma_busy16 busyMachine
              = Returns (d1, m1) \<and>
        last (trace m1) = TransferCompleteEvent 1 8)"
proof -
  have dds: "dma_dataSize dma_busy16 = 2" by (simp add: dma_dataSize_def dma_busy16_def)
  have ch: "rxDmaChannel_' dma_busy16 = 2" "txDmaChannel_' dma_busy16 = 3"
    by (simp_all add: dma_busy16_def dma_constructed_def)
  have n: "NDTR (channels busyMachine 2) = 3" "NDTR (channels busyMachine 3) = 1"
    by (simp_all add: busyMachine_def)
  have c: "(10 :: size_t) - 3 * of_nat 2 = 4" "(10 :: size_t) - 1 * of_nat 2 = 8" by simp_all
  note th = bytesTransferred_formula [OF dma_busy16_busy, unfolded ch n dds c]
  from th[THEN conjunct1] obtain m1 where
    "\<forall>dmaTransferCompleteEvent.
        DmaChannel_interruptHandler dmaTransferCompleteEvent TransferComplete 2 dma_busy16 busyMachine
          = dmaTransferCompleteEvent 1 10
              (dma_busy16\<lparr>dma_size_' := 0, dma_spiMasterBase_' := None\<rparr>) m1"
    "last (trace m1) = TransferCompleteEvent 1 10"
    by (elim exE conjE)
  then have a: "\<exists>d1 m1. DmaChannel_interruptHandler dma_emptyCallback TransferComplete 2 dma_busy16
                 busyMachine = Returns (d1, m1) \<and>
        last (trace m1) = TransferCompleteEvent 1 10"
    by simp
  from th[THEN conjunct2, THEN conjunct1] obtain m1 k where
    "\<forall>dmaTransferCompleteEvent.
        DmaChannel_interruptHandler dmaTransferCompleteEvent TransferError 2 dma_busy16 busyMachine
          = dmaTransferCompleteEvent 1 k
              (dma_busy16\<lparr>dma_size_' := 0, dma_spiMasterBase_' := None\<rparr>) m1"
    "last (trace m1) = TransferCompleteEvent 1 k" "k = 4"
    by (elim exE conjE)
  then have b: "\<exists>d1 m1. DmaChannel_interruptHandler dma_emptyCallback TransferError 2 dma_busy16
                 busyMachine = Returns (d1, m1) \<and>
        last (trace m1) = TransferCompleteEvent 1 4"
    by simp
  from th[THEN conjunct2, THEN conjunct2] obtain m1 k where
    "\<forall>dmaTransferCompleteEvent.
        DmaChannel_interruptHandler dmaTransferCompleteEvent TransferError 3 dma_busy16 busyMachine
          = dmaTransferCompleteEvent 1 k
              (dma_busy16\<lparr>dma_size_' := 0, dma_spiMasterBase_' := None\<rparr>) m1"
    "last (trace m1) = TransferCompleteEvent 1 k" "k = 8"
    by (elim exE conjE)
  then have c3: "\<exists>d1 m1. DmaChannel_interruptHandler dma_emptyCallback TransferError 3 dma_busy16
                 busyMachine = Returns (d1, m1) \<and>
        last (trace m1) = TransferCompleteEvent 1 8"
    by simp
  from dma_busy16_busy dds n[folded ch] a b c3 show ?thesis by (intro conjI)
qed

text \<open>
  Claim C1 as it is written fails: it names the remaining RX transactions for every
  event. In the middle of a transfer of 10 bytes with words of 16 bits, with three
  words left on the RX channel and one on the TX channel, a transfer-error interrupt of
  the TX channel makes the driver report \<open>10 - 1 * 2 = 8\<close> bytes, where the remaining RX
  transactions give \<open>10 - 3 * 2 = 4\<close>.
\<close>

theorem bytesTransferred_formula_counterexample:
  "dma_busy 1 10 dma_busy16 busyMachine \<and> dma_dataSize dma_busy16 = 2 \<and>
   DmaChannel_getTransactionsLeft (channels busyMachine (rxDmaChannel_' dma_busy16)) = 3 \<and>
   DmaChannel_getTransactionsLeft (channels busyMachine (txDmaChannel_' dma_busy16)) = 1 \<and>
   DmaChannel_interruptHandler dma_emptyCallback TransferError (txDmaChannel_' dma_busy16)
       dma_busy16 busyMachine
     = Returns (dma_busy16\<lparr>dma_size_' := 0, dma_spiMasterBase_' := None\<rparr>,
                atCompletion 1 8 dma_busy16 busyMachine) \<and>
   TxDmaChannelFunctor_transferErrorEvent dma_emptyCallback 1 dma_busy16 busyMachine
     = Returns (dma_busy16\<lparr>dma_size_' := 0, dma_spiMasterBase_' := None\<rparr>,
                atCompletion 1 8 dma_busy16 busyMachine) \<and>
   last (trace (atCompletion 1 8 dma_busy16 busyMachine)) = TransferCompleteEvent 1 8 \<and>
   (10 :: size_t) - 3 * 2 = 4 \<and> (8 :: size_t) \<noteq> 4"
proof -
  have dds: "dma_dataSize dma_busy16 = 2" by (simp add: dma_dataSize_def dma_busy16_def)
  have ch: "rxDmaChannel_' dma_busy16 = 2" "txDmaChannel_' dma_busy16 = 3"
    by (simp_all add: dma_busy16_def dma_constructed_def)
  have n: "DmaChannel_getTransactionsLeft (channels busyMachine 2) = 3"
    "DmaChannel_getTransactionsLeft (channels busyMachine 3) = 1"
    by (simp_all add: busyMachine_def DmaChannel_getTransactionsLeft_def)
  have n': "NDTR (channels busyMachine 3) = 1" by (simp add: busyMachine_def)
  have c: "(10 :: size_t) - 1 * of_nat 2 = 8" by simp
  have i: "DmaChannel_interruptHandler dma_emptyCallback TransferError 3 dma_busy16 busyMachine
     = Returns (dma_busy16\<lparr>dma_size_' := 0, dma_spiMasterBase_' := None\<rparr>,
                atCompletion 1 8 dma_busy16 busyMachine)"
    using DmaChannel_interruptHandler_ends(1)[OF dma_busy16_busy, of 3 TransferError dma_emptyCallback]
    unfolding ch n' dds c by simp
  have t: "TxDmaChannelFunctor_transferErrorEvent dma_emptyCallback 1 dma_busy16 busyMachine
     = Returns (dma_busy16\<lparr>dma_size_' := 0, dma_spiMasterBase_' := None\<rparr>,
                atCompletion 1 8 dma_busy16 busyMachine)"
    unfolding TxDmaChannelFunctor_transferErrorEvent_def
      eventHandler_busy(1)[OF dma_busy16_busy] dds c by simp
  have la: "last (trace (atCompletion 1 8 dma_busy16 busyMachine)) = TransferCompleteEvent 1 8"
    by (simp add: atCompletion_fields)
  from dma_busy16_busy dds n i t la show ?thesis unfolding ch by simp
qed

text \<open>
  The state of this example is reached from a new driver: \<open>start\<close>, \<open>configure\<close> for
  words of 16 bits, \<open>startTransfer\<close> of 10 bytes, and then two transactions of the RX
  channel and four of the TX channel.
\<close>

lemma busy_state_reached:
  "dma_start (dma_constructed 2 1 3 1) newMachine = (0, dma_idle 8, reservedMachine) \<and>
   dma_configure (\<lambda>mode clockFrequency wordLength lsbFirst m. ((0, clockFrequency), m))
       cpol0cpha0 1000000 16 False 0 (dma_idle 8) reservedMachine
     = ((0, 1000000), dma_idle 16, reservedMachine) \<and>
   (\<exists>m1. dma_startTransfer 1 0x20000100 0x20000000 10 (dma_idle 16) reservedMachine
            = Returns (0, dma_busy16, m1) \<and>
         dma_busy 1 10 dma_busy16 (hardwareProgress [(2, 2), (3, 4)] m1) \<and>
         NDTR (channels (hardwareProgress [(2, 2), (3, 4)] m1) 2) = 3 \<and>
         NDTR (channels (hardwareProgress [(2, 2), (3, 4)] m1) 3) = 1 \<and>
         DmaChannel_interruptHandler dma_emptyCallback TransferError 3 dma_busy16
             (hardwareProgress [(2, 2), (3, 4)] m1)
           = Returns (dma_busy16\<lparr>dma_size_' := 0, dma_spiMasterBase_' := None\<rparr>,
                      atCompletion 1 8 dma_busy16 (hardwareProgress [(2, 2), (3, 4)] m1)))"
proof -
  have cfg: "dma_configure (\<lambda>mode clockFrequency wordLength lsbFirst m. ((0, clockFrequency), m))
       cpol0cpha0 1000000 16 False 0 (dma_idle 8) reservedMachine
     = ((0, 1000000), dma_idle 16, reservedMachine)"
    by (simp add: dma_configure_def dma_idle_def dma_constructed_def dma_isStarted_def
        dma_isTransferInProgress_def)
  have r: "dma_ready (dma_idle 16) reservedMachine"
    by (rule dma_idle_ready) (simp_all add: minWordLength_def maxWordLength_def)
  have dds: "dma_dataSize (dma_idle 16) = 2" "dma_dataSize dma_busy16 = 2"
    by (simp_all add: dma_dataSize_def dma_idle_def dma_busy16_def)
  have ok: "dma_request_ok 0x20000100 0x20000000 10 (dma_idle 16)"
    unfolding dma_request_ok_def dds
    by (simp add: aligned_def nullptr_def dma_idle_def dma_constructed_def)
  have small: "unat (10 :: size_t) div dma_dataSize (dma_idle 16) \<le> 65535" unfolding dds by simp
  have d: "(dma_idle 16)\<lparr>dma_spiMasterBase_' := Some 1, dma_size_' := 10\<rparr> = dma_busy16"
    by (simp add: dma_idle_def dma_busy16_def dma_constructed_def)
  have ch: "rxDmaChannel_' (dma_idle 16) = 2" "txDmaChannel_' (dma_idle 16) = 3"
    "rxDmaChannel_' dma_busy16 = 2" "txDmaChannel_' dma_busy16 = 3"
    by (simp_all add: dma_idle_def dma_busy16_def dma_constructed_def)
  from dma_startTransfer_ok[OF r ok small, of 1, unfolded d ch dds] obtain m1 where
    s: "dma_startTransfer 1 0x20000100 0x20000000 10 (dma_idle 16) reservedMachine
            = Returns (0, dma_busy16, m1)"
    and n: "unat (NDTR (channels m1 2)) = unat (10 :: size_t) div 2"
           "unat (NDTR (channels m1 3)) = unat (10 :: size_t) div 2"
    by blast
  define m2 where "m2 = hardwareProgress [(2, 2), (3, 4)] m1"
  from dma_startTransfer_busy[OF r s] have "dma_busy 1 10 dma_busy16 m1" by simp
  from hardwareProgress_busy[OF this, of "[(2, 2), (3, 4)]"]
  have b: "dma_busy 1 10 dma_busy16 m2" by (simp add: m2_def)
  have n2: "NDTR (channels m2 2) = 3" "NDTR (channels m2 3) = 1"
    using n by (simp_all add: m2_def transactionsDone_def)
  have c: "(10 :: size_t) - 1 * of_nat 2 = 8" by simp
  have i: "DmaChannel_interruptHandler dma_emptyCallback TransferError 3 dma_busy16 m2
           = Returns (dma_busy16\<lparr>dma_size_' := 0, dma_spiMasterBase_' := None\<rparr>,
                      atCompletion 1 8 dma_busy16 m2)"
    using DmaChannel_interruptHandler_ends(1)[OF b, of 3 TransferError dma_emptyCallback]
    unfolding ch n2 dds c by simp
  from dma_start_new cfg s b n2 i show ?thesis unfolding m2_def by blast
qed

end
